theory Spec2Isabelle
  imports Complex_Main
begin

section \<open>Conway's Game of Life on a bounded board: the grid engine\<close>

text \<open>
  The browser script keeps a board of cell objects and advances it in two passes:
  \<^verbatim>\<open>updateLivingNeighbours\<close> stores in every cell the number of its live neighbours,
  \<^verbatim>\<open>updateAliveStatus\<close> then rewrites every cell's \<^verbatim>\<open>alive\<close> flag from that number.
  Both passes mutate the cell objects in place, inside two nested \<^verbatim>\<open>for\<close> loops.

  The model passes the board explicitly. A JavaScript property read on \<^verbatim>\<open>undefined\<close>
  (an index outside an array) throws a \<^verbatim>\<open>TypeError\<close>; it is the only exception the
  script can raise, and it is a value of the model.
\<close>

subsection \<open>Data\<close>

datatype error = TypeError

text \<open>
  \<^verbatim>\<open>class Cell\<close>. The field \<^verbatim>\<open>livingNeighbous\<close> is spelled as in the source; the
  field \<^verbatim>\<open>size\<close> is named \<open>size_c\<close>. Coordinates are pairs \<open>(row, col)\<close> of integers,
  since a neighbour candidate may be \<open>-1\<close>.
\<close>

record cell =
  alive :: bool
  neighbours :: "(int \<times> int) list"
  livingNeighbous :: nat
  position :: "int \<times> int"
  size_c :: nat

text \<open>\<^verbatim>\<open>class Board\<close>.\<close>

record board =
  rowLength :: nat
  columnLength :: nat
  cells :: "cell list list"
  cellSize :: nat

text \<open>The constants of the script.\<close>

definition canvasWidth :: nat where "canvasWidth = 800"
definition canvasHeight :: nat where "canvasHeight = 800"
definition cellsPerRow :: nat where "cellsPerRow = 100"

text \<open>
  \<^verbatim>\<open>new Board(rowLength)\<close>. The two divisions of the constructor are exact for the
  constants above (\<open>800 / 100 = 8\<close>, \<open>800 / 8 = 100\<close>), so the floating-point division
  of the source and \<open>div\<close> agree.
\<close>

definition new_Board :: "nat \<Rightarrow> board" where
  "new_Board rl =
     \<lparr> rowLength = rl,
       columnLength = canvasHeight div (canvasWidth div cellsPerRow),
       cells = [],
       cellSize = canvasWidth div cellsPerRow \<rparr>"

text \<open>\<^verbatim>\<open>Board.directions\<close>, in the order of the source.\<close>

definition directions :: "(int \<times> int) list" where
  "directions = [(-1, 0), (-1, 1), (0, 1), (1, 1), (1, 0), (1, -1), (0, -1), (-1, -1)]"

subsection \<open>Loops and array access\<close>

text \<open>
  \<^verbatim>\<open>for (let i = lo; i < n; i++) body\<close> over a state that the body may fail to
  produce. The bounds of the script's loops are fields that no loop body assigns, so
  the bound is read once.
\<close>

function for_loop :: "nat \<Rightarrow> nat \<Rightarrow> (nat \<Rightarrow> 's \<Rightarrow> error + 's) \<Rightarrow> 's \<Rightarrow> error + 's" where
  "for_loop i n body s =
     (if i < n
      then (case body i s of Inl e \<Rightarrow> Inl e | Inr s' \<Rightarrow> for_loop (Suc i) n body s')
      else Inr s)"
  by pat_completeness auto
termination
  by (relation "measure (\<lambda>(i, n, body, s). n - i)") auto

declare for_loop.simps [simp del]

text \<open>
  \<^verbatim>\<open>this.cells[r][c]\<close> followed by a property access: outside the outer array the
  row is \<^verbatim>\<open>undefined\<close>, outside the row the cell is, and either way the next access
  throws.
\<close>

definition cellAt :: "cell list list \<Rightarrow> int \<Rightarrow> int \<Rightarrow> error + cell" where
  "cellAt cs r c =
     (if 0 \<le> r \<and> r < int (length cs) \<and> 0 \<le> c \<and> c < int (length (cs ! nat r))
      then Inr (cs ! nat r ! nat c)
      else Inl TypeError)"

text \<open>The cell object at \<open>[row][col]\<close> after a mutation of its fields.\<close>

definition setCell :: "cell list list \<Rightarrow> nat \<Rightarrow> nat \<Rightarrow> cell \<Rightarrow> cell list list" where
  "setCell cs row col v = cs[row := (cs ! row)[col := v]]"

subsection \<open>Neighbour lists\<close>

definition isInBounds :: "board \<Rightarrow> int \<Rightarrow> int \<Rightarrow> bool" where
  "isInBounds b row col \<longleftrightarrow>
     row \<ge> 0 \<and> row < int (columnLength b) \<and> col \<ge> 0 \<and> col < int (rowLength b)"

text \<open>The loop of \<^verbatim>\<open>getNeighbours\<close> over the directions still to visit.\<close>

fun neighboursLoop :: "board \<Rightarrow> int \<Rightarrow> int \<Rightarrow> (int \<times> int) list \<Rightarrow> (int \<times> int) list \<Rightarrow> (int \<times> int) list" where
  "neighboursLoop b row col [] neighboursArr = neighboursArr"
| "neighboursLoop b row col (d # ds) neighboursArr =
     neighboursLoop b row col ds
       (if isInBounds b (row + fst d) (col + snd d)
        then neighboursArr @ [(row + fst d, col + snd d)]
        else neighboursArr)"

definition getNeighbours :: "board \<Rightarrow> int \<Rightarrow> int \<Rightarrow> (int \<times> int) list" where
  "getNeighbours b row col = neighboursLoop b row col directions []"

subsection \<open>The two passes of a tick\<close>

text \<open>
  \<^verbatim>\<open>cell.livingNeighbous++\<close> on the cell object at \<open>[row][col]\<close>.
\<close>

definition incrLiving :: "nat \<Rightarrow> nat \<Rightarrow> board \<Rightarrow> board" where
  "incrLiving row col b =
     b\<lparr>cells := setCell (cells b) row col
                  ((cells b ! row ! col)\<lparr>livingNeighbous := livingNeighbous (cells b ! row ! col) + 1\<rparr>)\<rparr>"

text \<open>
  The innermost loop of \<^verbatim>\<open>updateLivingNeighbours\<close> for the cell at \<open>[row][col]\<close>: every
  neighbour coordinate \<open>n\<close> of the cell is looked up on the board, and the cell's counter
  is incremented in place when \<^verbatim>\<open>this.cells[n[0]][n[1]].alive\<close> holds.
\<close>

fun countLiving :: "nat \<Rightarrow> nat \<Rightarrow> (int \<times> int) list \<Rightarrow> board \<Rightarrow> error + board" where
  "countLiving row col [] b = Inr b"
| "countLiving row col (n # ns) b =
     (case cellAt (cells b) (fst n) (snd n) of
        Inl e \<Rightarrow> Inl e
      | Inr nb \<Rightarrow> countLiving row col ns (if alive nb then incrLiving row col b else b))"

text \<open>
  The body of the two outer loops of \<^verbatim>\<open>updateLivingNeighbours\<close>: the counter of the
  cell is reset, then the innermost loop runs over the cell's neighbour list.
\<close>

definition countCell :: "nat \<Rightarrow> nat \<Rightarrow> board \<Rightarrow> error + board" where
  "countCell row col b =
     (case cellAt (cells b) (int row) (int col) of
        Inl e \<Rightarrow> Inl e
      | Inr cell \<Rightarrow>
          countLiving row col (neighbours cell)
            (b\<lparr>cells := setCell (cells b) row col (cell\<lparr>livingNeighbous := 0\<rparr>)\<rparr>))"

definition updateLivingNeighbours :: "board \<Rightarrow> error + board" where
  "updateLivingNeighbours b =
     for_loop 0 (columnLength b)
       (\<lambda>row. for_loop 0 (rowLength b) (\<lambda>col. countCell row col)) b"

text \<open>
  The two \<^verbatim>\<open>if\<close> statements of \<^verbatim>\<open>updateAliveStatus\<close> on one cell. The second one
  tests the flag as the first one left it.
\<close>

definition applyRule :: "cell \<Rightarrow> cell" where
  "applyRule cell =
     (let cell1 =
            (if alive cell
             then (if livingNeighbous cell < 2 \<or> livingNeighbous cell > 3
                   then cell\<lparr>alive := False\<rparr> else cell)
             else cell)
      in (if \<not> alive cell1
          then (if livingNeighbous cell1 = 3 then cell1\<lparr>alive := True\<rparr> else cell1)
          else cell1))"

definition statusCell :: "nat \<Rightarrow> nat \<Rightarrow> board \<Rightarrow> error + board" where
  "statusCell row col b =
     (case cellAt (cells b) (int row) (int col) of
        Inl e \<Rightarrow> Inl e
      | Inr cell \<Rightarrow> Inr (b\<lparr>cells := setCell (cells b) row col (applyRule cell)\<rparr>))"

definition updateAliveStatus :: "board \<Rightarrow> error + board" where
  "updateAliveStatus b =
     for_loop 0 (columnLength b)
       (\<lambda>row. for_loop 0 (rowLength b) (\<lambda>col. statusCell row col)) b"

text \<open>
  One generation: the two board passes of \<^verbatim>\<open>animate\<close>, in its order. An exception
  of the first pass leaves the second one unexecuted.
\<close>

definition step :: "board \<Rightarrow> error + board" where
  "step b =
     (case updateLivingNeighbours b of
        Inl e \<Rightarrow> Inl e
      | Inr b1 \<Rightarrow> updateAliveStatus b1)"


text \<open>\<open>n\<close> generations in a row; the first exception ends the run.\<close>

fun steps :: "nat \<Rightarrow> board \<Rightarrow> error + board" where
  "steps 0 b = Inr b"
| "steps (Suc n) b = (case step b of Inl e \<Rightarrow> Inl e | Inr b' \<Rightarrow> steps n b')"

section \<open>The page: canvas, random numbers, animation frames and timers\<close>

text \<open>
  What the script touches outside its own objects is kept in one record.
  \<^item> The canvas context is the list of the operations issued on it, oldest first. The two
    fill styles of \<^verbatim>\<open>draw\<close> are \<^verbatim>\<open>hsla(h, 80%, 80%, 1)\<close>, written \<open>Hsla h\<close>, and the fixed
    \<^verbatim>\<open>hsla(240, 30%, 20%, 100%)\<close>, written \<open>Background\<close>.
  \<^item> \<open>random pg k\<close> is the outcome of the test \<^verbatim>\<open>Math.random() < 0.1\<close> at the \<open>k\<close>-th next
    call of \<^verbatim>\<open>Math.random\<close>.
  \<^item> \<open>console\<close> holds the values logged by \<^verbatim>\<open>animate\<close>: \<open>None\<close> is the \<^verbatim>\<open>NaN\<close> of the first
    frame, when \<^verbatim>\<open>lastTime\<close> is still \<^verbatim>\<open>undefined\<close>.
  \<^item> \<open>frames\<close> are the handles of the pending \<^verbatim>\<open>requestAnimationFrame(this.animate)\<close>
    requests, \<open>timers\<close> the delays of the pending \<^verbatim>\<open>setTimeout\<close> callbacks of \<^verbatim>\<open>animate\<close>.
    Wall-clock time is not part of the model: a timer records its delay and fires when
    the event loop says so.
\<close>

datatype fill_style = Hsla int | Background

datatype ctx_op =
    SetFillStyle fill_style
  | FillRect int int nat nat
  | ClearRect nat nat nat nat

record page =
  ctx :: "ctx_op list"
  random :: "nat \<Rightarrow> bool"
  console :: "rat option list"
  lastTime :: "rat option"
  frames :: "nat list"
  nextHandle :: nat
  timers :: "rat list"

text \<open>
  The three browser functions the script calls. \<^verbatim>\<open>requestAnimationFrame\<close> queues the
  callback for the next animation frame and returns a fresh handle,
  \<^verbatim>\<open>cancelAnimationFrame\<close> takes the request with that handle out of the queue, and
  \<^verbatim>\<open>setTimeout\<close> arms a timer.
\<close>

definition requestAnimationFrame :: "page \<Rightarrow> nat \<times> page" where
  "requestAnimationFrame pg =
     (nextHandle pg, pg\<lparr>frames := frames pg @ [nextHandle pg], nextHandle := Suc (nextHandle pg)\<rparr>)"

definition cancelAnimationFrame :: "nat \<Rightarrow> page \<Rightarrow> page" where
  "cancelAnimationFrame h pg = pg\<lparr>frames := removeAll h (frames pg)\<rparr>"

definition setTimeout :: "rat \<Rightarrow> page \<Rightarrow> page" where
  "setTimeout delay pg = pg\<lparr>timers := timers pg @ [delay]\<rparr>"

subsection \<open>Drawing and initialising the board\<close>

text \<open>The body of the loops of \<^verbatim>\<open>draw\<close>: one fill style and one rectangle per cell.\<close>

definition drawCell :: "board \<Rightarrow> nat \<Rightarrow> nat \<Rightarrow> page \<Rightarrow> error + page" where
  "drawCell b row col pg =
     (case cellAt (cells b) (int row) (int col) of
        Inl e \<Rightarrow> Inl e
      | Inr cell \<Rightarrow>
          Inr (pg\<lparr>ctx := ctx pg @
                 [SetFillStyle
                    (if alive cell then Hsla (fst (position cell) + snd (position cell) * 4)
                     else Background),
                  FillRect (snd (position cell) * int (size_c cell))
                           (fst (position cell) * int (size_c cell))
                           (size_c cell) (size_c cell)]\<rparr>))"

definition draw :: "board \<Rightarrow> page \<Rightarrow> error + page" where
  "draw b pg =
     for_loop 0 (columnLength b)
       (\<lambda>row. for_loop 0 (rowLength b) (\<lambda>col. drawCell b row col)) pg"

text \<open>\<^verbatim>\<open>new Cell(position, size, neighbours)\<close> draws one random number.\<close>

definition new_Cell :: "int \<times> int \<Rightarrow> nat \<Rightarrow> (int \<times> int) list \<Rightarrow> page \<Rightarrow> cell \<times> page" where
  "new_Cell pos sz nbs pg =
     (\<lparr> alive = random pg 0, neighbours = nbs, livingNeighbous = 0, position = pos, size_c = sz \<rparr>,
      pg\<lparr>random := (\<lambda>k. random pg (Suc k))\<rparr>)"

text \<open>
  The body of the inner loop of \<^verbatim>\<open>init\<close>: \<^verbatim>\<open>this.cells[row].push(new Cell(...))\<close>.
\<close>

definition pushCell :: "nat \<Rightarrow> nat \<Rightarrow> board \<times> page \<Rightarrow> error + board \<times> page" where
  "pushCell row col s =
     (let b = fst s; pg = snd s in
      if row < length (cells b)
      then (let (cell, pg') = new_Cell (int row, int col) (cellSize b)
                                (getNeighbours b (int row) (int col)) pg
            in Inr (b\<lparr>cells := (cells b)[row := cells b ! row @ [cell]]\<rparr>, pg'))
      else Inl TypeError)"

text \<open>The body of the outer loop: \<^verbatim>\<open>this.cells.push([])\<close>, then the inner loop.\<close>

definition pushRow :: "nat \<Rightarrow> board \<times> page \<Rightarrow> error + board \<times> page" where
  "pushRow row s =
     (let b = fst s; pg = snd s in
      for_loop 0 (rowLength b) (pushCell row) (b\<lparr>cells := cells b @ [[]]\<rparr>, pg))"

definition init :: "board \<Rightarrow> page \<Rightarrow> error + board \<times> page" where
  "init b pg =
     (case for_loop 0 (columnLength b) pushRow (b\<lparr>cells := []\<rparr>, pg) of
        Inl e \<Rightarrow> Inl e
      | Inr (b', pg') \<Rightarrow>
          (case draw b' pg' of Inl e \<Rightarrow> Inl e | Inr pg'' \<Rightarrow> Inr (b', pg'')))"

section \<open>The animation controller\<close>

text \<open>\<^verbatim>\<open>class AnimationController\<close>; its methods act on the controller and the page.\<close>

record controller =
  fps :: nat
  board :: board
  isPlaying :: bool
  tref :: nat

type_synonym world = "controller \<times> page"

definition new_AnimationController :: "nat \<Rightarrow> page \<Rightarrow> error + world" where
  "new_AnimationController f pg =
     (case init (new_Board cellsPerRow) pg of
        Inl e \<Rightarrow> Inl e
      | Inr (b, pg') \<Rightarrow> Inr (\<lparr> fps = f, board = b, isPlaying = False, tref = 0 \<rparr>, pg'))"

text \<open>
  \<^verbatim>\<open>animate(time)\<close>: log, remember the time, one generation, redraw, and arm the timer
  whose callback is \<open>animateTimeout\<close>. The delay \<^verbatim>\<open>1000 / this.fps\<close> is kept as a rational.
\<close>

definition animate :: "rat \<Rightarrow> world \<Rightarrow> error + world" where
  "animate time w =
     (let ac = fst w; pg = snd w;
          pg1 = pg\<lparr>console := console pg @
                        [case lastTime pg of None \<Rightarrow> None | Some l \<Rightarrow> Some (time - l)],
                    lastTime := Some time\<rparr>
      in case step (board ac) of
           Inl e \<Rightarrow> Inl e
         | Inr b' \<Rightarrow>
             (case draw b' pg1 of
                Inl e \<Rightarrow> Inl e
              | Inr pg2 \<Rightarrow> Inr (ac\<lparr>board := b'\<rparr>, setTimeout (1000 / of_nat (fps ac)) pg2)))"

text \<open>The arrow function handed to \<^verbatim>\<open>setTimeout\<close>.\<close>

definition animateTimeout :: "world \<Rightarrow> world" where
  "animateTimeout w =
     (let ac = fst w; pg = snd w in
      if isPlaying ac
      then (let (h, pg') = requestAnimationFrame pg in (ac\<lparr>tref := h\<rparr>, pg'))
      else (ac, cancelAnimationFrame (tref ac) pg))"

definition pause :: "world \<Rightarrow> world" where
  "pause w =
     (let ac = fst w; pg = snd w in
      if isPlaying ac then (ac\<lparr>isPlaying := False\<rparr>, pg) else (ac, pg))"

definition play :: "world \<Rightarrow> world" where
  "play w =
     (let ac = fst w; pg = snd w in
      if \<not> isPlaying ac
      then (let (h, pg') = requestAnimationFrame pg in (ac\<lparr>isPlaying := True, tref := h\<rparr>, pg'))
      else (ac, pg))"

definition restart :: "world \<Rightarrow> error + world" where
  "restart w =
     (let w1 = pause w; ac = fst w1; pg = snd w1;
          pg1 = pg\<lparr>ctx := ctx pg @ [ClearRect 0 0 canvasWidth canvasHeight]\<rparr>
      in case init (board ac) pg1 of
           Inl e \<Rightarrow> Inl e
         | Inr (b', pg2) \<Rightarrow> Inr (ac\<lparr>board := b'\<rparr>, pg2))"

subsection \<open>The event loop\<close>

text \<open>
  The events that reach the controller: the three buttons, an animation frame with its
  time stamp, and the expiry of the oldest timer (all timers carry the same delay, so
  they expire in the order they were armed). An animation frame runs the callbacks that
  were pending when it began; every one of them is \<^verbatim>\<open>this.animate\<close>. An exception that
  escapes a callback ends the modelled run.
\<close>

datatype event = PlayClick | PauseClick | RestartClick | Frame rat | Timeout

fun animateAll :: "nat list \<Rightarrow> rat \<Rightarrow> world \<Rightarrow> error + world" where
  "animateAll [] time w = Inr w"
| "animateAll (h # hs) time w =
     (case animate time w of Inl e \<Rightarrow> Inl e | Inr w' \<Rightarrow> animateAll hs time w')"

fun fire :: "event \<Rightarrow> world \<Rightarrow> error + world" where
  "fire PlayClick w = Inr (play w)"
| "fire PauseClick w = Inr (pause w)"
| "fire RestartClick w = restart w"
| "fire (Frame time) w = animateAll (frames (snd w)) time (fst w, (snd w)\<lparr>frames := []\<rparr>)"
| "fire Timeout w =
     (case timers (snd w) of
        [] \<Rightarrow> Inr w
      | d # ds \<Rightarrow> Inr (animateTimeout (fst w, (snd w)\<lparr>timers := ds\<rparr>)))"

fun run :: "event list \<Rightarrow> world \<Rightarrow> error + world" where
  "run [] w = Inr w"
| "run (e # es) w = (case fire e w of Inl x \<Rightarrow> Inl x | Inr w' \<Rightarrow> run es w')"

text \<open>The number of ticks executed so far: \<^verbatim>\<open>animate\<close> logs one line per call.\<close>

definition ticks :: "world \<Rightarrow> nat" where
  "ticks w = length (console (snd w))"

text \<open>The dimensions of the controller's board.\<close>

definition dimensions :: "world \<Rightarrow> nat \<times> nat" where
  "dimensions w = (rowLength (board (fst w)), columnLength (board (fst w)))"

text \<open>
  An undisturbed stretch of the loop: for every time stamp an animation frame, then the
  expiry of the timer that the frame armed.
\<close>

definition rounds :: "rat list \<Rightarrow> event list" where
  "rounds ts = concat (map (\<lambda>t. [Frame t, Timeout]) ts)"

section \<open>Specification-side notions\<close>

text \<open>
  A generation is the grid of the \<^verbatim>\<open>alive\<close> flags. The reference transition reads the
  previous generation only: a coordinate outside the grid is dead, the live neighbours
  of \<open>(r, c)\<close> are the live coordinates among the eight around it, and the rule is
  Conway's.
\<close>

type_synonym generation = "bool list list"

definition generation_of :: "board \<Rightarrow> generation" where
  "generation_of b = map (map alive) (cells b)"

definition liveAt :: "generation \<Rightarrow> int \<Rightarrow> int \<Rightarrow> bool" where
  "liveAt g r c \<longleftrightarrow>
     0 \<le> r \<and> r < int (length g) \<and> 0 \<le> c \<and> c < int (length (g ! nat r)) \<and> g ! nat r ! nat c"

definition adjacent :: "int \<Rightarrow> int \<Rightarrow> (int \<times> int) set" where
  "adjacent r c = Set.filter (\<lambda>p. p \<noteq> (r, c)) ({r - 1 .. r + 1} \<times> {c - 1 .. c + 1})"

definition liveNeighbourCount :: "generation \<Rightarrow> int \<Rightarrow> int \<Rightarrow> nat" where
  "liveNeighbourCount g r c = card (Set.filter (\<lambda>p. liveAt g (fst p) (snd p)) (adjacent r c))"

definition conway :: "bool \<Rightarrow> nat \<Rightarrow> bool" where
  "conway a k = (if a then k = 2 \<or> k = 3 else k = 3)"

definition lifeStep :: "generation \<Rightarrow> generation" where
  "lifeStep g =
     map (\<lambda>r. map (\<lambda>c. conway (g ! r ! c) (liveNeighbourCount g (int r) (int c)))
                  [0 ..< length (g ! r)])
         [0 ..< length g]"

text \<open>
  The shape of an initialised board: \<open>columnLength\<close> rows of \<open>rowLength\<close> cells, every
  cell carrying its own coordinates, the board's cell size and the neighbour list that
  \<^verbatim>\<open>getNeighbours\<close> computes for its coordinates.
\<close>

definition rect :: "board \<Rightarrow> bool" where
  "rect b \<longleftrightarrow> length (cells b) = columnLength b \<and> (\<forall>r \<in> set (cells b). length r = rowLength b)"

definition board_ok :: "board \<Rightarrow> bool" where
  "board_ok b \<longleftrightarrow> rect b \<and>
     (\<forall>row \<in> {0 ..< columnLength b}. \<forall>col \<in> {0 ..< rowLength b}.
        neighbours (cells b ! row ! col) = getNeighbours b (int row) (int col) \<and>
        position (cells b ! row ! col) = (int row, int col) \<and>
        size_c (cells b ! row ! col) = cellSize b)"

text \<open>The cells that \<^verbatim>\<open>init\<close> builds from the outcomes \<open>rnd\<close> of the random tests.\<close>

definition freshCell :: "board \<Rightarrow> (nat \<Rightarrow> bool) \<Rightarrow> nat \<Rightarrow> nat \<Rightarrow> cell" where
  "freshCell b rnd row col =
     \<lparr> alive = rnd (row * rowLength b + col),
       neighbours = getNeighbours b (int row) (int col),
       livingNeighbous = 0,
       position = (int row, int col),
       size_c = cellSize b \<rparr>"

definition freshCells :: "board \<Rightarrow> (nat \<Rightarrow> bool) \<Rightarrow> cell list list" where
  "freshCells b rnd =
     map (\<lambda>row. map (freshCell b rnd row) [0 ..< rowLength b]) [0 ..< columnLength b]"

text \<open>A coordinate at which \<^verbatim>\<open>this.cells[r][c]\<close> finds a cell: the test of \<open>cellAt\<close>.\<close>

definition inArray :: "cell list list \<Rightarrow> int \<times> int \<Rightarrow> bool" where
  "inArray cs p \<longleftrightarrow>
     0 \<le> fst p \<and> fst p < int (length cs) \<and> 0 \<le> snd p \<and> snd p < int (length (cs ! nat (fst p)))"

text \<open>What the counting pass stores when none of its accesses fails.\<close>

definition liveCount :: "cell list list \<Rightarrow> (int \<times> int) list \<Rightarrow> nat" where
  "liveCount cs ns = length (filter (\<lambda>n. alive (cs ! nat (fst n) ! nat (snd n))) ns)"

definition recount :: "cell list list \<Rightarrow> cell \<Rightarrow> cell" where
  "recount cs c = c\<lparr>livingNeighbous := liveCount cs (neighbours c)\<rparr>"

text \<open>
  The state of a pass that rewrites every cell by \<open>F\<close>, about to visit \<open>(row, col)\<close>: the
  cells before that position are rewritten, the others are as in the board \<open>b0\<close> the pass
  began with.
\<close>

definition partly :: "(cell \<Rightarrow> cell) \<Rightarrow> board \<Rightarrow> nat \<Rightarrow> nat \<Rightarrow> board \<Rightarrow> bool" where
  "partly F b0 row col t \<longleftrightarrow>
     rowLength t = rowLength b0 \<and> columnLength t = columnLength b0 \<and> cellSize t = cellSize b0 \<and>
     length (cells t) = length (cells b0) \<and>
     (\<forall>r < length (cells b0). length (cells t ! r) = length (cells b0 ! r) \<and>
        (\<forall>c < length (cells b0 ! r).
           cells t ! r ! c =
             (if r < row \<or> (r = row \<and> c < col) then F (cells b0 ! r ! c) else cells b0 ! r ! c)))"

text \<open>What no pass changes: the dimensions and, cell by cell, everything but the flag and the counter.\<close>

definition skeleton :: "board \<Rightarrow> nat \<times> nat \<times> nat \<times> ((int \<times> int) list \<times> (int \<times> int) \<times> nat) list list" where
  "skeleton b =
     (rowLength b, columnLength b, cellSize b,
      map (map (\<lambda>c. (neighbours c, position c, size_c c))) (cells b))"

text \<open>One cell after both passes, given the cells the counting pass read.\<close>

definition nextCell :: "cell list list \<Rightarrow> cell \<Rightarrow> cell" where
  "nextCell cs c = applyRule (recount cs c)"

text \<open>A board without a live cell.\<close>

definition allDead :: "board \<Rightarrow> bool" where
  "allDead b \<longleftrightarrow> (\<forall>r \<in> set (cells b). \<forall>c \<in> set r. \<not> alive c)"

text \<open>
  A board whose live cells are exactly the four cells of the block with upper left
  corner \<open>(r0, c0)\<close>.
\<close>

definition isBlock :: "board \<Rightarrow> nat \<Rightarrow> nat \<Rightarrow> bool" where
  "isBlock b r0 c0 \<longleftrightarrow>
     r0 + 1 < columnLength b \<and> c0 + 1 < rowLength b \<and>
     (\<forall>row \<in> {0 ..< columnLength b}. \<forall>col \<in> {0 ..< rowLength b}.
        alive (cells b ! row ! col) \<longleftrightarrow> (row = r0 \<or> row = r0 + 1) \<and> (col = c0 \<or> col = c0 + 1))"

text \<open>A board on which the rule changes no cell.\<close>

definition still :: "board \<Rightarrow> bool" where
  "still b \<longleftrightarrow>
     (\<forall>row < columnLength b. \<forall>col < rowLength b.
        conway (alive (cells b ! row ! col)) (liveNeighbourCount (generation_of b) (int row) (int col)) =
          alive (cells b ! row ! col))"

text \<open>The canvas operations of \<^verbatim>\<open>draw\<close> for one cell and for a whole board.\<close>

definition paint :: "cell \<Rightarrow> ctx_op list" where
  "paint cell =
     [SetFillStyle
        (if alive cell then Hsla (fst (position cell) + snd (position cell) * 4) else Background),
      FillRect (snd (position cell) * int (size_c cell)) (fst (position cell) * int (size_c cell))
               (size_c cell) (size_c cell)]"

definition painting :: "board \<Rightarrow> ctx_op list" where
  "painting b = concat (map (\<lambda>row. concat (map paint row)) (cells b))"

text \<open>
  Neighbour lists as they should be: without repetition, holding exactly the coordinates
  among the eight around the cell that lie on the board, each of them one that
  \<^verbatim>\<open>this.cells[r][c]\<close> can read.
\<close>

definition neighboursExact :: "board \<Rightarrow> bool" where
  "neighboursExact b \<longleftrightarrow>
     (\<forall>row \<in> {0 ..< columnLength b}. \<forall>col \<in> {0 ..< rowLength b}.
        distinct (neighbours (cells b ! row ! col)) \<and>
        set (neighbours (cells b ! row ! col)) =
          Set.filter (\<lambda>p. 0 \<le> fst p \<and> fst p < int (columnLength b) \<and>
                          0 \<le> snd p \<and> snd p < int (rowLength b))
            (adjacent (int row) (int col)) \<and>
        (\<forall>p \<in> set (neighbours (cells b ! row ! col)).
           cellAt (cells b) (fst p) (snd p) = Inr (cells b ! nat (fst p) ! nat (snd p))))"

subsection \<open>Small boards for concrete instances\<close>

text \<open>A 4 by 4 board with a block in its middle, and a 2 by 3 board without a live cell.\<close>

definition demo_board :: board where
  "demo_board =
     \<lparr> rowLength = 4, columnLength = 4,
       cells = freshCells \<lparr> rowLength = 4, columnLength = 4, cells = [], cellSize = 8 \<rparr>
                 (\<lambda>k. k \<in> {5, 6, 9, 10}),
       cellSize = 8 \<rparr>"

definition dead_board :: board where
  "dead_board =
     \<lparr> rowLength = 3, columnLength = 2,
       cells = freshCells \<lparr> rowLength = 3, columnLength = 2, cells = [], cellSize = 8 \<rparr> (\<lambda>k. False),
       cellSize = 8 \<rparr>"

text \<open>A page on which nothing has happened yet, and a stopped controller on the small boards.\<close>

definition demo_page :: page where
  "demo_page =
     \<lparr> ctx = [], random = (\<lambda>k. k mod 3 = 0), console = [], lastTime = None,
       frames = [], nextHandle = 1, timers = [] \<rparr>"

definition demo_controller :: controller where
  "demo_controller = \<lparr> fps = 5, board = dead_board, isPlaying = False, tref = 0 \<rparr>"

definition demo_world :: world where
  "demo_world = (demo_controller, demo_page)"

section \<open>Loops\<close>

lemma for_loop_total:
  assumes "P i s" and "i \<le> n"
    and "\<And>j t. i \<le> j \<Longrightarrow> j < n \<Longrightarrow> P j t \<Longrightarrow> \<exists>t'. body j t = Inr t' \<and> P (Suc j) t'"
  shows "\<exists>s'. for_loop i n body s = Inr s' \<and> P n s'"
  using assms
proof (induction i n body s rule: for_loop.induct)
  case (1 i n body s)
  show ?case
  proof (cases "i < n")
    case True
    from "1.prems"(3)[OF le_refl True "1.prems"(1)]
    obtain t where t: "body i s = Inr t" "P (Suc i) t" by blast
    have "\<exists>s'. for_loop (Suc i) n body t = Inr s' \<and> P n s'"
      using "1.IH"[OF True t(1) t(2)] True "1.prems"(3) by auto
    then show ?thesis
      using True t(1) by (subst for_loop.simps) simp
  next
    case False
    with "1.prems" have "i = n" by simp
    with "1.prems"(1) show ?thesis by (subst for_loop.simps) simp
  qed
qed

lemma for_loop_preserve:
  assumes "for_loop i n body s = Inr s'" and "Q s"
    and "\<And>j t t'. Q t \<Longrightarrow> body j t = Inr t' \<Longrightarrow> Q t'"
  shows "Q s'"
  using assms
proof (induction i n body s rule: for_loop.induct)
  case (1 i n body s)
  show ?case
  proof (cases "i < n")
    case True
    from "1.prems"(1) True obtain t where t: "body i s = Inr t" "for_loop (Suc i) n body t = Inr s'"
      by (subst (asm) for_loop.simps) (auto split: sum.splits)
    show ?thesis
      using "1.IH"[OF True t(1) t(2)] "1.prems"(2,3) t(1) by blast
  next
    case False
    with "1.prems"(1) have "s' = s" by (subst (asm) for_loop.simps) simp
    with "1.prems"(2) show ?thesis by simp
  qed
qed

lemma neighboursLoop_eq:
  "neighboursLoop b row col ds acc =
     acc @ filter (\<lambda>p. isInBounds b (fst p) (snd p)) (map (\<lambda>d. (row + fst d, col + snd d)) ds)"
  by (induction ds arbitrary: acc) auto


lemma partly_start: "partly F b0 0 0 b0"
  by (simp add: partly_def)

lemma partly_setCell:
  assumes "partly F b0 row col t" "row < length (cells b0)" "col < length (cells b0 ! row)"
  shows "partly F b0 row (Suc col) (t\<lparr>cells := setCell (cells t) row col (F (cells b0 ! row ! col))\<rparr>)"
  using assms
  by (auto simp: partly_def setCell_def nth_list_update less_Suc_eq)

lemma partly_next_row:
  assumes "partly F b0 row n t" "row < length (cells b0)" "length (cells b0 ! row) = n"
  shows "partly F b0 (Suc row) 0 t"
  using assms by (auto simp: partly_def less_Suc_eq)

lemma partly_end:
  assumes "partly F b0 (length (cells b0)) 0 t"
  shows "t = b0\<lparr>cells := map (map F) (cells b0)\<rparr>"
proof -
  have "cells t = map (map F) (cells b0)"
  proof (rule nth_equalityI)
    show "length (cells t) = length (map (map F) (cells b0))"
      using assms by (simp add: partly_def)
  next
    fix r assume "r < length (cells t)"
    with assms have r: "r < length (cells b0)" by (simp add: partly_def)
    have "cells t ! r = map F (cells b0 ! r)"
      using assms r by (intro nth_equalityI) (auto simp: partly_def)
    with r show "cells t ! r = map (map F) (cells b0) ! r" by simp
  qed
  moreover have "rowLength t = rowLength b0" "columnLength t = columnLength b0" "cellSize t = cellSize b0"
    using assms by (simp_all add: partly_def)
  ultimately show ?thesis by (cases t) (cases b0, simp)
qed

lemma nested_loop_map:
  assumes len: "length (cells b0) = m" and rows: "\<And>r. r < m \<Longrightarrow> length (cells b0 ! r) = n"
    and body: "\<And>row col t. row < m \<Longrightarrow> col < n \<Longrightarrow> partly F b0 row col t \<Longrightarrow>
                 body row col t = Inr (t\<lparr>cells := setCell (cells t) row col (F (cells b0 ! row ! col))\<rparr>)"
  shows "for_loop 0 m (\<lambda>row. for_loop 0 n (body row)) b0 = Inr (b0\<lparr>cells := map (map F) (cells b0)\<rparr>)"
proof -
  have inner: "\<exists>t'. for_loop 0 n (body row) t = Inr t' \<and> partly F b0 (Suc row) 0 t'"
    if "row < m" "partly F b0 row 0 t" for row t
  proof -
    have "\<exists>t'. for_loop 0 n (body row) t = Inr t' \<and> partly F b0 row n t'"
    proof (rule for_loop_total [where P = "\<lambda>col. partly F b0 row col"])
      show "partly F b0 row 0 t" by (rule that)
      show "0 \<le> n" by simp
    next
      fix j u assume "j < n" "partly F b0 row j u"
      then show "\<exists>t'. body row j u = Inr t' \<and> partly F b0 row (Suc j) t'"
        using body [OF that(1)] partly_setCell [of F b0 row j u] that(1) len rows by simp
    qed
    then show ?thesis
      using partly_next_row [of F b0 row n] that(1) len rows by auto
  qed
  have "\<exists>t'. for_loop 0 m (\<lambda>row. for_loop 0 n (body row)) b0 = Inr t' \<and> partly F b0 m 0 t'"
    by (rule for_loop_total [where P = "\<lambda>row. partly F b0 row 0"])
       (use inner partly_start in auto)
  then show ?thesis
    using partly_end [of F b0] len by auto
qed



section \<open>The two passes in closed form\<close>

lemma rect_iff_nth:
  "rect b \<longleftrightarrow> length (cells b) = columnLength b \<and>
     (\<forall>row < columnLength b. length (cells b ! row) = rowLength b)"
  by (auto simp: rect_def all_set_conv_all_nth)

lemma rect_nth: "rect b \<Longrightarrow> row < columnLength b \<Longrightarrow> length (cells b ! row) = rowLength b"
  by (simp add: rect_iff_nth)

lemma rect_length: "rect b \<Longrightarrow> length (cells b) = columnLength b"
  by (simp add: rect_def)

lemma rect_map [simp]: "rect (b\<lparr>cells := map (map F) (cells b)\<rparr>) = rect b"
  by (auto simp: rect_def)

lemma isInBounds_cells [simp]: "isInBounds (b\<lparr>cells := cs\<rparr>) = isInBounds b"
  by (simp add: isInBounds_def fun_eq_iff)

lemma getNeighbours_cells [simp]: "getNeighbours (b\<lparr>cells := cs\<rparr>) = getNeighbours b"
  by (simp add: getNeighbours_def neighboursLoop_eq fun_eq_iff)

lemma cellAt_nat:
  "row < length cs \<Longrightarrow> col < length (cs ! row) \<Longrightarrow> cellAt cs (int row) (int col) = Inr (cs ! row ! col)"
  by (simp add: cellAt_def)

lemma cellAt_inBounds:
  "rect b \<Longrightarrow> isInBounds b r c \<Longrightarrow> cellAt (cells b) r c = Inr (cells b ! nat r ! nat c)"
  by (auto simp: rect_iff_nth isInBounds_def cellAt_def)

lemma setCell_length [simp]: "length (setCell cs row col v) = length cs"
  by (simp add: setCell_def)

lemma setCell_row_length [simp]:
  "i < length cs \<Longrightarrow> length (setCell cs row col v ! i) = length (cs ! i)"
  by (cases "i = row") (simp_all add: setCell_def)

lemma setCell_nth:
  "i < length cs \<Longrightarrow> j < length (cs ! i) \<Longrightarrow>
     setCell cs row col v ! i ! j = (if i = row \<and> j = col then v else cs ! i ! j)"
  by (cases "i = row"; cases "j = col") (simp_all add: setCell_def)

lemma setCell_setCell [simp]: "setCell (setCell cs row col v) row col v' = setCell cs row col v'"
  by (cases "row < length cs") (simp_all add: setCell_def list_update_beyond)

lemma liveCount_cong:
  assumes "\<And>p. p \<in> set ns \<Longrightarrow>
      alive (cs ! nat (fst p) ! nat (snd p)) = alive (cs' ! nat (fst p) ! nat (snd p))"
  shows "liveCount cs ns = liveCount cs' ns"
  unfolding liveCount_def using assms by (metis (mono_tags, lifting) filter_cong)

lemma liveCount_setCell:
  assumes "\<And>p. p \<in> set ns \<Longrightarrow> inArray cs p" and "alive v = alive (cs ! row ! col)"
  shows "liveCount (setCell cs row col v) ns = liveCount cs ns"
proof (rule liveCount_cong)
  fix p assume "p \<in> set ns"
  from assms(1) [OF this] have "nat (fst p) < length cs" "nat (snd p) < length (cs ! nat (fst p))"
    by (simp_all add: inArray_def nat_less_iff)
  then show "alive (setCell cs row col v ! nat (fst p) ! nat (snd p)) = alive (cs ! nat (fst p) ! nat (snd p))"
    using assms(2) by (simp add: setCell_nth)
qed

lemma inArray_setCell [simp]: "inArray (setCell cs row col v) p = inArray cs p"
  by (auto simp: inArray_def)

lemma cellAt_inArray: "inArray cs p \<Longrightarrow> cellAt cs (fst p) (snd p) = Inr (cs ! nat (fst p) ! nat (snd p))"
  by (simp add: cellAt_def inArray_def)

lemma countLiving_eq:
  assumes "row < length (cells b)" "col < length (cells b ! row)"
    and "\<And>p. p \<in> set ns \<Longrightarrow> inArray (cells b) p"
  shows "countLiving row col ns b =
           Inr (b\<lparr>cells := setCell (cells b) row col
                  ((cells b ! row ! col)\<lparr>livingNeighbous :=
                      livingNeighbous (cells b ! row ! col) + liveCount (cells b) ns\<rparr>)\<rparr>)"
  using assms
proof (induction ns arbitrary: b)
  case Nil
  have "setCell (cells b) row col (cells b ! row ! col) = cells b"
    by (simp add: setCell_def)
  then show ?case by (simp add: liveCount_def)
next
  case (Cons n ns)
  let ?c = "cells b ! row ! col"
  have at: "cellAt (cells b) (fst n) (snd n) = Inr (cells b ! nat (fst n) ! nat (snd n))"
    using Cons.prems(3) by (simp add: cellAt_inArray)
  have valid: "\<And>p. p \<in> set ns \<Longrightarrow> inArray (cells b) p"
    using Cons.prems(3) by simp
  show ?case
  proof (cases "alive (cells b ! nat (fst n) ! nat (snd n))")
    case False
    then show ?thesis
      using at Cons.IH [OF Cons.prems(1,2) valid] by (simp add: liveCount_def)
  next
    case True
    let ?b' = "incrLiving row col b"
    have 1: "row < length (cells ?b')" "col < length (cells ?b' ! row)"
      using Cons.prems(1,2) by (simp_all add: incrLiving_def)
    have 2: "\<And>p. p \<in> set ns \<Longrightarrow> inArray (cells ?b') p"
      using valid by (simp add: incrLiving_def)
    have 3: "cells ?b' ! row ! col = ?c\<lparr>livingNeighbous := livingNeighbous ?c + 1\<rparr>"
      using Cons.prems(1,2) by (simp add: incrLiving_def setCell_nth)
    have 4: "liveCount (cells ?b') ns = liveCount (cells b) ns"
      unfolding incrLiving_def using valid by (simp add: liveCount_setCell)
    have "countLiving row col ns ?b' =
            Inr (?b'\<lparr>cells := setCell (cells ?b') row col
                   ((cells ?b' ! row ! col)\<lparr>livingNeighbous :=
                      livingNeighbous (cells ?b' ! row ! col) + liveCount (cells ?b') ns\<rparr>)\<rparr>)"
      using 1 2 by (rule Cons.IH)
    also have "\<dots> =
            Inr (b\<lparr>cells := setCell (cells b) row col
                   (?c\<lparr>livingNeighbous := livingNeighbous ?c + 1 + liveCount (cells b) ns\<rparr>)\<rparr>)"
      unfolding 3 4 by (simp add: incrLiving_def)
    finally show ?thesis
      using at True by (simp add: liveCount_def)
  qed
qed

lemma set_getNeighbours_inBounds:
  "p \<in> set (getNeighbours b row col) \<Longrightarrow> isInBounds b (fst p) (snd p)"
  by (auto simp: getNeighbours_def neighboursLoop_eq)

lemma board_ok_rect: "board_ok b \<Longrightarrow> rect b"
  by (simp add: board_ok_def)

lemma board_ok_neighbours:
  "board_ok b \<Longrightarrow> row < columnLength b \<Longrightarrow> col < rowLength b \<Longrightarrow>
     neighbours (cells b ! row ! col) = getNeighbours b (int row) (int col)"
  by (simp add: board_ok_def)

lemma board_ok_inBounds:
  "board_ok b \<Longrightarrow> row < columnLength b \<Longrightarrow> col < rowLength b \<Longrightarrow>
     p \<in> set (neighbours (cells b ! row ! col)) \<Longrightarrow> isInBounds b (fst p) (snd p)"
  by (simp add: board_ok_neighbours set_getNeighbours_inBounds)

lemma partly_rect:
  assumes "partly F b0 row col t" "rect b0"
  shows "rect t"
  using assms by (auto simp: partly_def rect_iff_nth)

lemma partly_liveCount:
  assumes p: "partly F b0 row col t" and r: "rect b0"
    and F: "\<And>c. alive (F c) = alive c"
    and ns: "\<And>p. p \<in> set ns \<Longrightarrow> isInBounds b0 (fst p) (snd p)"
  shows "liveCount (cells t) ns = liveCount (cells b0) ns"
proof (rule liveCount_cong)
  fix p assume "p \<in> set ns"
  from ns [OF this] r have "nat (fst p) < length (cells b0)" "nat (snd p) < length (cells b0 ! nat (fst p))"
    by (auto simp: isInBounds_def rect_iff_nth)
  with p show "alive (cells t ! nat (fst p) ! nat (snd p)) = alive (cells b0 ! nat (fst p) ! nat (snd p))"
    by (auto simp: partly_def F)
qed

lemma updateLivingNeighbours_eq:
  assumes r: "rect b"
    and nb: "\<And>row col p. row < columnLength b \<Longrightarrow> col < rowLength b \<Longrightarrow>
               p \<in> set (neighbours (cells b ! row ! col)) \<Longrightarrow> isInBounds b (fst p) (snd p)"
  shows "updateLivingNeighbours b = Inr (b\<lparr>cells := map (map (recount (cells b))) (cells b)\<rparr>)"
  unfolding updateLivingNeighbours_def
proof (rule nested_loop_map)
  show "length (cells b) = columnLength b" using r by (simp add: rect_iff_nth)
  show "length (cells b ! r') = rowLength b" if "r' < columnLength b" for r'
    using r that by (simp add: rect_iff_nth)
next
  fix row col t
  assume row: "row < columnLength b" and col: "col < rowLength b"
    and p: "partly (recount (cells b)) b row col t"
  have rt: "rect t" using partly_rect [OF p r] .
  have dims: "columnLength t = columnLength b" "rowLength t = rowLength b"
    using p by (simp_all add: partly_def)
  have lens: "row < length (cells b)" "col < length (cells b ! row)"
    using r row col by (simp_all add: rect_iff_nth)
  have cur: "cells t ! row ! col = cells b ! row ! col"
    using p lens by (simp add: partly_def)
  have at: "cellAt (cells t) (int row) (int col) = Inr (cells b ! row ! col)"
    using rt row col dims cur by (simp add: cellAt_nat rect_iff_nth)
  let ?ns = "neighbours (cells b ! row ! col)"
  have inb: "isInBounds t (fst q) (snd q)" if "q \<in> set ?ns" for q
    using nb [OF row col that] dims by (simp add: isInBounds_def)
  let ?c = "cells b ! row ! col"
  let ?t0 = "t\<lparr>cells := setCell (cells t) row col (?c\<lparr>livingNeighbous := 0\<rparr>)\<rparr>"
  have lens_t: "row < length (cells t)" "col < length (cells t ! row)"
    using rt row col dims by (simp_all add: rect_iff_nth)
  have valid_t: "inArray (cells t) q" if "q \<in> set ?ns" for q
    using inb [OF that] rt by (auto simp: inArray_def isInBounds_def rect_iff_nth)
  have "countLiving row col ?ns ?t0 =
          Inr (?t0\<lparr>cells := setCell (cells ?t0) row col
                 ((cells ?t0 ! row ! col)\<lparr>livingNeighbous :=
                    livingNeighbous (cells ?t0 ! row ! col) + liveCount (cells ?t0) ?ns\<rparr>)\<rparr>)"
    by (rule countLiving_eq) (use lens_t valid_t in simp_all)
  moreover have "cells ?t0 ! row ! col = ?c\<lparr>livingNeighbous := 0\<rparr>"
    using lens_t by (simp add: setCell_nth)
  moreover have "liveCount (cells ?t0) ?ns = liveCount (cells t) ?ns"
    using valid_t cur by (simp add: liveCount_setCell)
  moreover have "liveCount (cells t) ?ns = liveCount (cells b) ?ns"
    by (rule partly_liveCount [OF p r]) (simp_all add: recount_def nb [OF row col])
  ultimately show "countCell row col t =
      Inr (t\<lparr>cells := setCell (cells t) row col (recount (cells b) (cells b ! row ! col))\<rparr>)"
    using at by (simp add: countCell_def recount_def)
qed

lemma updateAliveStatus_eq:
  assumes r: "rect b"
  shows "updateAliveStatus b = Inr (b\<lparr>cells := map (map applyRule) (cells b)\<rparr>)"
  unfolding updateAliveStatus_def
proof (rule nested_loop_map)
  show "length (cells b) = columnLength b" using r by (simp add: rect_iff_nth)
  show "length (cells b ! r') = rowLength b" if "r' < columnLength b" for r'
    using r that by (simp add: rect_iff_nth)
next
  fix row col t
  assume row: "row < columnLength b" and col: "col < rowLength b"
    and p: "partly applyRule b row col t"
  have rt: "rect t" using partly_rect [OF p r] .
  have dims: "columnLength t = columnLength b" "rowLength t = rowLength b"
    using p by (simp_all add: partly_def)
  have lens: "row < length (cells b)" "col < length (cells b ! row)"
    using r row col by (simp_all add: rect_iff_nth)
  have cur: "cells t ! row ! col = cells b ! row ! col"
    using p lens by (simp add: partly_def)
  have at: "cellAt (cells t) (int row) (int col) = Inr (cells b ! row ! col)"
    using rt row col dims cur by (simp add: cellAt_nat rect_iff_nth)
  then show "statusCell row col t =
      Inr (t\<lparr>cells := setCell (cells t) row col (applyRule (cells b ! row ! col))\<rparr>)"
    by (simp add: statusCell_def)
qed


lemma step_eq:
  assumes "board_ok b"
  shows "step b = Inr (b\<lparr>cells := map (map (nextCell (cells b))) (cells b)\<rparr>)"
proof -
  have r: "rect b" using assms by (rule board_ok_rect)
  have 1: "updateLivingNeighbours b = Inr (b\<lparr>cells := map (map (recount (cells b))) (cells b)\<rparr>)"
    by (rule updateLivingNeighbours_eq [OF r]) (rule board_ok_inBounds [OF assms])
  have 2: "updateAliveStatus (b\<lparr>cells := map (map (recount (cells b))) (cells b)\<rparr>) =
      Inr (b\<lparr>cells := map (map (nextCell (cells b))) (cells b)\<rparr>)"
    using r by (subst updateAliveStatus_eq) (simp_all add: nextCell_def comp_def)
  show ?thesis by (simp add: step_def 1 2)
qed

lemma nextCell_fields [simp]:
  "neighbours (nextCell cs c) = neighbours c"
  "position (nextCell cs c) = position c"
  "size_c (nextCell cs c) = size_c c"
  "livingNeighbous (nextCell cs c) = liveCount cs (neighbours c)"
  "alive (nextCell cs c) = conway (alive c) (liveCount cs (neighbours c))"
  by (auto simp: nextCell_def applyRule_def recount_def conway_def Let_def)

lemma board_ok_map:
  assumes "board_ok b"
    and "\<And>c. neighbours (F c) = neighbours c \<and> position (F c) = position c \<and> size_c (F c) = size_c c"
  shows "board_ok (b\<lparr>cells := map (map F) (cells b)\<rparr>)"
  using assms by (auto simp: board_ok_def rect_nth rect_length)

lemma board_ok_step:
  assumes "board_ok b" "step b = Inr b'"
  shows "board_ok b'"
  using assms board_ok_map [OF assms(1), of "nextCell (cells b)"] by (simp add: step_eq)

section \<open>The neighbour count of the code and of the reference\<close>

lemma int_interval3: "{r - 1 .. r + 1} = {r - 1, r, r + 1}" for r :: int
  by auto

lemma adjacent_eq:
  "adjacent r c =
     {(r - 1, c), (r - 1, c + 1), (r, c + 1), (r + 1, c + 1),
      (r + 1, c), (r + 1, c - 1), (r, c - 1), (r - 1, c - 1)}"
  unfolding adjacent_def int_interval3 by auto

lemma set_shift_directions:
  "set (map (\<lambda>d. (r + fst d, c + snd d)) directions) = adjacent r c"
  unfolding adjacent_eq by (simp add: directions_def insert_commute)

lemma distinct_shift_directions:
  "distinct (map (\<lambda>d. (r + fst d, c + snd d)) directions)"
  by (simp add: directions_def)

lemma liveAt_generation:
  assumes "rect b"
  shows "liveAt (generation_of b) r c \<longleftrightarrow> isInBounds b r c \<and> alive (cells b ! nat r ! nat c)"
  using assms by (auto simp: liveAt_def generation_of_def isInBounds_def rect_iff_nth)

lemma liveCount_getNeighbours:
  assumes "rect b"
  shows "liveCount (cells b) (getNeighbours b r c) = liveNeighbourCount (generation_of b) r c"
proof -
  let ?xs = "map (\<lambda>d. (r + fst d, c + snd d)) directions"
  let ?P = "\<lambda>p. liveAt (generation_of b) (fst p) (snd p)"
  have "liveCount (cells b) (getNeighbours b r c) = length (filter ?P ?xs)"
    by (simp add: liveCount_def getNeighbours_def neighboursLoop_eq liveAt_generation [OF assms] conj_commute)
  also have "\<dots> = card ({x. ?P x} \<inter> set ?xs)"
    by (rule distinct_length_filter [OF distinct_shift_directions])
  also have "{x. ?P x} \<inter> set ?xs = Set.filter ?P (adjacent r c)"
    unfolding set_shift_directions by auto
  finally show ?thesis
    by (simp add: liveNeighbourCount_def)
qed

section \<open>Fresh boards\<close>

lemma freshCells_nth:
  "row < columnLength b \<Longrightarrow> col < rowLength b \<Longrightarrow> freshCells b rnd ! row ! col = freshCell b rnd row col"
  by (simp add: freshCells_def)

lemma board_ok_fresh: "board_ok (b\<lparr>cells := freshCells b rnd\<rparr>)"
  by (auto simp: board_ok_def rect_def freshCells_def freshCell_def)

lemma demo_ok: "board_ok demo_board"
  using board_ok_fresh [of "\<lparr> rowLength = 4, columnLength = 4, cells = [], cellSize = 8 \<rparr>"]
  by (simp add: demo_board_def)

lemma demo_block: "isBlock demo_board 1 1"
proof -
  have "(row * 4 + col = 5 \<or> row * 4 + col = 6 \<or> row * 4 + col = 9 \<or> row * 4 + col = 10) =
        ((row = 1 \<or> row = 2) \<and> (col = 1 \<or> col = 2))" if "row < 4" "col < 4" for row col :: nat
    using that by arith
  then show ?thesis
    by (auto simp: isBlock_def demo_board_def freshCells_nth freshCell_def)
qed

lemma dead_ok: "board_ok dead_board"
  using board_ok_fresh [of "\<lparr> rowLength = 3, columnLength = 2, cells = [], cellSize = 8 \<rparr>"]
  by (simp add: dead_board_def)

lemma dead_allDead: "allDead dead_board"
  by (auto simp: allDead_def dead_board_def freshCells_def freshCell_def)

section \<open>The transition rule\<close>

lemma step_cell:
  assumes "board_ok b" "row < columnLength b" "col < rowLength b"
  shows "\<exists>b'. step b = Inr b' \<and>
     alive (cells b' ! row ! col) =
       conway (alive (cells b ! row ! col)) (liveNeighbourCount (generation_of b) (int row) (int col)) \<and>
     livingNeighbous (cells b' ! row ! col) = liveNeighbourCount (generation_of b) (int row) (int col)"
proof -
  have r: "rect b" using assms(1) by (rule board_ok_rect)
  have "liveCount (cells b) (neighbours (cells b ! row ! col)) =
          liveNeighbourCount (generation_of b) (int row) (int col)"
    using assms by (simp add: board_ok_neighbours liveCount_getNeighbours [OF r])
  then show ?thesis
    using assms r by (simp add: step_eq rect_length rect_nth)
qed

text \<open>
  Claim C1. On an initialised board one generation succeeds, and for every cell of the
  board: a live cell with two or three live neighbours in the previous generation is
  alive afterwards, a live cell with fewer than two or more than three is dead, a dead
  cell with exactly three is alive, and every other dead cell is dead.
\<close>

theorem step_applies_rule:
  assumes "board_ok b" "row < columnLength b" "col < rowLength b"
  shows "\<exists>b'. step b = Inr b' \<and>
     (let a = alive (cells b ! row ! col);
          k = liveNeighbourCount (generation_of b) (int row) (int col);
          a' = alive (cells b' ! row ! col)
      in (a \<and> (k = 2 \<or> k = 3) \<longrightarrow> a') \<and>
         (a \<and> (k < 2 \<or> k > 3) \<longrightarrow> \<not> a') \<and>
         (\<not> a \<and> k = 3 \<longrightarrow> a') \<and>
         (\<not> a \<and> k \<noteq> 3 \<longrightarrow> \<not> a'))"
  using step_cell [OF assms] by (auto simp: conway_def Let_def)

theorem step_applies_rule_witness:
  "board_ok demo_board \<and> (1::nat) < columnLength demo_board \<and> (2::nat) < rowLength demo_board \<and>
   (\<exists>b'. step demo_board = Inr b' \<and>
     (let a = alive (cells demo_board ! 1 ! 2);
          k = liveNeighbourCount (generation_of demo_board) (int 1) (int 2);
          a' = alive (cells b' ! 1 ! 2)
      in (a \<and> (k = 2 \<or> k = 3) \<longrightarrow> a') \<and>
         (a \<and> (k < 2 \<or> k > 3) \<longrightarrow> \<not> a') \<and>
         (\<not> a \<and> k = 3 \<longrightarrow> a') \<and>
         (\<not> a \<and> k \<noteq> 3 \<longrightarrow> \<not> a')))"
proof -
  have 1: "board_ok demo_board" by (rule demo_ok)
  have 2: "(1::nat) < columnLength demo_board" by (simp add: demo_board_def)
  have 3: "(2::nat) < rowLength demo_board" by (simp add: demo_board_def)
  show ?thesis using 1 2 3 step_applies_rule [OF 1 2 3] by simp
qed

lemma generation_step:
  assumes "board_ok b"
  shows "generation_of (b\<lparr>cells := map (map (nextCell (cells b))) (cells b)\<rparr>) = lifeStep (generation_of b)"
proof -
  have r: "rect b" using assms by (rule board_ok_rect)
  have cellwise: "alive (nextCell (cells b) (cells b ! row ! col)) =
      conway (alive (cells b ! row ! col)) (liveNeighbourCount (generation_of b) (int row) (int col))"
    if "row < columnLength b" "col < rowLength b" for row col
    using assms that by (simp add: board_ok_neighbours liveCount_getNeighbours [OF r])
  have rowwise: "map (alive \<circ> nextCell (cells b)) (cells b ! row) =
      map (\<lambda>c. conway (generation_of b ! row ! c) (liveNeighbourCount (generation_of b) (int row) (int c)))
        [0 ..< length (generation_of b ! row)]"
    if "row < columnLength b" for row
    using that r cellwise
    by (intro nth_equalityI) (simp_all add: generation_of_def rect_length rect_nth)
  show ?thesis
    unfolding lifeStep_def
    using r rowwise
    by (intro nth_equalityI) (simp_all add: generation_of_def rect_length)
qed


lemma generation_recount [simp]:
  "generation_of (b\<lparr>cells := map (map (recount cs)) (cells b)\<rparr>) = generation_of b"
  by (simp add: generation_of_def recount_def comp_def)

text \<open>
  Claim C2. On an initialised board the counting pass succeeds, changes no \<^verbatim>\<open>alive\<close>
  flag and stores in every cell the number of its live neighbours in the previous
  generation; the status pass then succeeds, and the generation after both passes is
  the reference transition \<open>lifeStep\<close> of the previous generation, a function of that
  generation alone in which no visiting order occurs.
\<close>

theorem step_simultaneous:
  assumes "board_ok b"
  shows "\<exists>b1 b'.
     updateLivingNeighbours b = Inr b1 \<and>
     generation_of b1 = generation_of b \<and>
     (\<forall>row \<in> {0 ..< columnLength b}. \<forall>col \<in> {0 ..< rowLength b}.
        livingNeighbous (cells b1 ! row ! col) =
          liveNeighbourCount (generation_of b) (int row) (int col)) \<and>
     updateAliveStatus b1 = Inr b' \<and>
     step b = Inr b' \<and>
     generation_of b' = lifeStep (generation_of b)"
proof -
  have r: "rect b" using assms by (rule board_ok_rect)
  let ?b1 = "b\<lparr>cells := map (map (recount (cells b))) (cells b)\<rparr>"
  let ?b' = "b\<lparr>cells := map (map (nextCell (cells b))) (cells b)\<rparr>"
  have 1: "updateLivingNeighbours b = Inr ?b1"
    by (rule updateLivingNeighbours_eq [OF r]) (rule board_ok_inBounds [OF assms])
  have 2: "step b = Inr ?b'" by (rule step_eq [OF assms])
  have 3: "updateAliveStatus ?b1 = Inr ?b'"
    using 1 2 by (simp add: step_def)
  have 4: "livingNeighbous (cells ?b1 ! row ! col) =
             liveNeighbourCount (generation_of b) (int row) (int col)"
    if "row < columnLength b" "col < rowLength b" for row col
    using that assms r
    by (simp add: rect_length rect_nth recount_def board_ok_neighbours liveCount_getNeighbours)
  show ?thesis
    using 1 2 3 4 generation_step [OF assms] by (intro exI [of _ ?b1] exI [of _ ?b']) simp
qed

theorem step_simultaneous_witness:
  "board_ok demo_board \<and>
   (\<exists>b1 b'.
     updateLivingNeighbours demo_board = Inr b1 \<and>
     generation_of b1 = generation_of demo_board \<and>
     (\<forall>row \<in> {0 ..< columnLength demo_board}. \<forall>col \<in> {0 ..< rowLength demo_board}.
        livingNeighbous (cells b1 ! row ! col) =
          liveNeighbourCount (generation_of demo_board) (int row) (int col)) \<and>
     updateAliveStatus b1 = Inr b' \<and>
     step demo_board = Inr b' \<and>
     generation_of b' = lifeStep (generation_of demo_board))"
  using demo_ok step_simultaneous [OF demo_ok] by (rule conjI)

lemma liveCount_dead:
  assumes "\<And>p. p \<in> set ns \<Longrightarrow> \<not> alive (cs ! nat (fst p) ! nat (snd p))"
  shows "liveCount cs ns = 0"
  using assms by (simp add: liveCount_def)

lemma allDead_nth:
  assumes "allDead b" "rect b" "isInBounds b r c"
  shows "\<not> alive (cells b ! nat r ! nat c)"
proof -
  from assms(2,3) have "nat r < length (cells b)" "nat c < length (cells b ! nat r)"
    by (auto simp: rect_iff_nth isInBounds_def)
  then have "cells b ! nat r \<in> set (cells b)" "cells b ! nat r ! nat c \<in> set (cells b ! nat r)"
    by simp_all
  with assms(1) show ?thesis unfolding allDead_def by blast
qed

text \<open>
  Claim C4. One generation on an initialised board without a live cell succeeds and
  gives a board without a live cell.
\<close>

theorem all_dead_stays_dead:
  assumes "board_ok b" "allDead b"
  shows "\<exists>b'. step b = Inr b' \<and> allDead b'"
proof -
  have r: "rect b" using assms(1) by (rule board_ok_rect)
  have "\<not> alive (nextCell (cells b) c)" if "row \<in> set (cells b)" "c \<in> set row" for row c
  proof -
    from that obtain i j where ij: "i < length (cells b)" "j < length (cells b ! i)" "c = cells b ! i ! j"
      by (metis in_set_conv_nth)
    then have range: "i < columnLength b" "j < rowLength b"
      using r by (simp_all add: rect_iff_nth)
    have "liveCount (cells b) (neighbours c) = 0"
      using ij(3) allDead_nth [OF assms(2) r] board_ok_inBounds [OF assms(1) range]
      by (intro liveCount_dead) blast
    moreover have "\<not> alive c" using assms(2) that by (auto simp: allDead_def)
    ultimately show ?thesis by (simp add: conway_def)
  qed
  then show ?thesis
    by (auto simp: step_eq [OF assms(1)] allDead_def)
qed

theorem all_dead_stays_dead_witness:
  "board_ok dead_board \<and> allDead dead_board \<and> (\<exists>b'. step dead_board = Inr b' \<and> allDead b')"
  using dead_ok dead_allDead all_dead_stays_dead [OF dead_ok dead_allDead] by simp

section \<open>What a generation leaves alone\<close>

lemma map_update_same:
  "i < length xs \<Longrightarrow> f v = f (xs ! i) \<Longrightarrow> map f (xs[i := v]) = map f xs"
  by (rule nth_equalityI) (auto simp: nth_list_update)

lemma skeleton_setCell:
  assumes "cellAt (cells b) (int row) (int col) = Inr c"
    and "neighbours v = neighbours c" "position v = position c" "size_c v = size_c c"
  shows "skeleton (b\<lparr>cells := setCell (cells b) row col v\<rparr>) = skeleton b"
proof -
  let ?f = "\<lambda>c. (neighbours c, position c, size_c c)"
  from assms(1) have in_range: "row < length (cells b)" "col < length (cells b ! row)"
    and c: "c = cells b ! row ! col"
    by (auto simp: cellAt_def split: if_splits)
  have row_eq: "map ?f ((cells b ! row)[col := v]) = map ?f (cells b ! row)"
    using in_range assms(2-4) c by (intro map_update_same) simp_all
  have "map (map ?f) (setCell (cells b) row col v) = map (map ?f) (cells b)"
    unfolding setCell_def using in_range(1) row_eq by (rule map_update_same)
  then show ?thesis by (simp add: skeleton_def)
qed

lemma skeleton_incrLiving: "skeleton (incrLiving row col b) = skeleton b"
proof (cases "row < length (cells b) \<and> col < length (cells b ! row)")
  case True
  then have "cellAt (cells b) (int row) (int col) = Inr (cells b ! row ! col)"
    by (simp add: cellAt_nat)
  then show ?thesis
    unfolding incrLiving_def by (rule skeleton_setCell) simp_all
next
  case False
  then have "setCell (cells b) row col v = cells b" for v
    by (auto simp: setCell_def not_less list_update_beyond)
  then show ?thesis by (simp add: incrLiving_def)
qed

lemma countLiving_skeleton:
  assumes "countLiving row col ns b = Inr b'"
  shows "skeleton b' = skeleton b"
  using assms
  by (induction ns arbitrary: b) (auto simp: skeleton_incrLiving split: sum.splits if_splits)

lemma countCell_skeleton:
  assumes "countCell row col b = Inr b'"
  shows "skeleton b' = skeleton b"
proof -
  from assms obtain c where c: "cellAt (cells b) (int row) (int col) = Inr c"
    and b': "countLiving row col (neighbours c)
               (b\<lparr>cells := setCell (cells b) row col (c\<lparr>livingNeighbous := 0\<rparr>)\<rparr>) = Inr b'"
    by (auto simp: countCell_def split: sum.splits)
  have "skeleton (b\<lparr>cells := setCell (cells b) row col (c\<lparr>livingNeighbous := 0\<rparr>)\<rparr>) = skeleton b"
    by (rule skeleton_setCell [OF c]) simp_all
  with countLiving_skeleton [OF b'] show ?thesis by simp
qed

lemma applyRule_fields [simp]:
  "neighbours (applyRule c) = neighbours c"
  "position (applyRule c) = position c"
  "size_c (applyRule c) = size_c c"
  "livingNeighbous (applyRule c) = livingNeighbous c"
  by (simp_all add: applyRule_def Let_def)

lemma statusCell_skeleton:
  assumes "statusCell row col b = Inr b'"
  shows "skeleton b' = skeleton b"
proof -
  from assms obtain c where c: "cellAt (cells b) (int row) (int col) = Inr c"
    and b': "b' = b\<lparr>cells := setCell (cells b) row col (applyRule c)\<rparr>"
    by (auto simp: statusCell_def split: sum.splits)
  show ?thesis unfolding b' by (intro skeleton_setCell [OF c]) simp_all
qed

lemma nested_loop_skeleton:
  assumes run: "for_loop 0 m (\<lambda>row. for_loop 0 n (body row)) b = Inr b'"
    and body: "\<And>row col t t'. body row col t = Inr t' \<Longrightarrow> skeleton t' = skeleton t"
  shows "skeleton b' = skeleton b"
proof (rule for_loop_preserve [OF run, where Q = "\<lambda>t. skeleton t = skeleton b"])
  show "skeleton b = skeleton b" ..
next
  fix row t t'
  assume t: "skeleton t = skeleton b" and inner: "for_loop 0 n (body row) t = Inr t'"
  show "skeleton t' = skeleton b"
    by (rule for_loop_preserve [OF inner, where Q = "\<lambda>u. skeleton u = skeleton b"])
       (use t body in auto)
qed

lemma step_skeleton:
  assumes "step b = Inr b'"
  shows "skeleton b' = skeleton b"
proof -
  from assms obtain b1 where 1: "updateLivingNeighbours b = Inr b1" and 2: "updateAliveStatus b1 = Inr b'"
    by (auto simp: step_def split: sum.splits)
  have "skeleton b1 = skeleton b"
    using 1 unfolding updateLivingNeighbours_def
    by (rule nested_loop_skeleton) (rule countCell_skeleton)
  moreover have "skeleton b' = skeleton b1"
    using 2 unfolding updateAliveStatus_def
    by (rule nested_loop_skeleton) (rule statusCell_skeleton)
  ultimately show ?thesis by simp
qed

lemma steps_skeleton:
  assumes "steps n b = Inr b'"
  shows "skeleton b' = skeleton b"
  using assms
  by (induction n arbitrary: b) (auto split: sum.splits dest: step_skeleton)

lemma skeleton_eqD:
  assumes "skeleton b' = skeleton b"
  shows "rowLength b' = rowLength b \<and> columnLength b' = columnLength b \<and> cellSize b' = cellSize b \<and>
     length (cells b') = length (cells b) \<and>
     (\<forall>r < length (cells b). length (cells b' ! r) = length (cells b ! r) \<and>
        (\<forall>c < length (cells b ! r).
           neighbours (cells b' ! r ! c) = neighbours (cells b ! r ! c) \<and>
           position (cells b' ! r ! c) = position (cells b ! r ! c) \<and>
           size_c (cells b' ! r ! c) = size_c (cells b ! r ! c)))"
proof -
  let ?f = "\<lambda>c. (neighbours c, position c, size_c c)"
  from assms have m: "map (map ?f) (cells b') = map (map ?f) (cells b)"
    and d: "rowLength b' = rowLength b" "columnLength b' = columnLength b" "cellSize b' = cellSize b"
    by (simp_all add: skeleton_def)
  from m have len: "length (cells b') = length (cells b)" by (rule map_eq_imp_length_eq)
  have rows: "map ?f (cells b' ! r) = map ?f (cells b ! r)" if "r < length (cells b)" for r
    using that len arg_cong [OF m, of "\<lambda>xs. xs ! r"] by simp
  have cell: "?f (cells b' ! r ! c) = ?f (cells b ! r ! c)"
    if "r < length (cells b)" "c < length (cells b ! r)" for r c
    using that map_eq_imp_length_eq [OF rows [OF that(1)]] arg_cong [OF rows [OF that(1)], of "\<lambda>xs. xs ! c"]
    by simp
  show ?thesis
    using d len cell map_eq_imp_length_eq [OF rows] by auto
qed

lemma steps_ok:
  assumes "board_ok b"
  shows "\<exists>bn. steps n b = Inr bn \<and> board_ok bn"
  using assms
proof (induction n arbitrary: b)
  case 0
  then show ?case by simp
next
  case (Suc n)
  from step_eq [OF Suc.prems] obtain b1 where b1: "step b = Inr b1" by blast
  with Suc.prems have "board_ok b1" by (rule board_ok_step)
  from Suc.IH [OF this] b1 show ?case by simp
qed

text \<open>
  Claim C7. On an initialised board any number of generations runs to its end. Whatever
  the board, a run of generations that ends leaves the dimensions and the cell size as
  they were, the rows as many and as long, and in every cell the neighbour list, the
  position and the size: only \<^verbatim>\<open>alive\<close> and \<^verbatim>\<open>livingNeighbous\<close> can differ.
\<close>

theorem steps_frame:
  "(board_ok b \<longrightarrow> (\<exists>b'. steps n b = Inr b')) \<and>
   (\<forall>b'. steps n b = Inr b' \<longrightarrow>
      rowLength b' = rowLength b \<and> columnLength b' = columnLength b \<and> cellSize b' = cellSize b \<and>
      length (cells b') = length (cells b) \<and>
      (\<forall>r < length (cells b). length (cells b' ! r) = length (cells b ! r) \<and>
         (\<forall>c < length (cells b ! r).
            neighbours (cells b' ! r ! c) = neighbours (cells b ! r ! c) \<and>
            position (cells b' ! r ! c) = position (cells b ! r ! c) \<and>
            size_c (cells b' ! r ! c) = size_c (cells b ! r ! c))))"
proof (rule conjI; (rule allI)?; rule impI)
  assume "board_ok b"
  from steps_ok [OF this] show "\<exists>b'. steps n b = Inr b'" by blast
next
  fix b' assume "steps n b = Inr b'"
  then have "skeleton b' = skeleton b" by (rule steps_skeleton)
  then show "rowLength b' = rowLength b \<and> columnLength b' = columnLength b \<and> cellSize b' = cellSize b \<and>
      length (cells b') = length (cells b) \<and>
      (\<forall>r < length (cells b). length (cells b' ! r) = length (cells b ! r) \<and>
         (\<forall>c < length (cells b ! r).
            neighbours (cells b' ! r ! c) = neighbours (cells b ! r ! c) \<and>
            position (cells b' ! r ! c) = position (cells b ! r ! c) \<and>
            size_c (cells b' ! r ! c) = size_c (cells b ! r ! c)))"
    by (rule skeleton_eqD)
qed

theorem steps_frame_witness:
  "board_ok demo_board \<and>
   (\<exists>b'. steps 2 demo_board = Inr b' \<and>
     rowLength b' = rowLength demo_board \<and> columnLength b' = columnLength demo_board \<and>
     cellSize b' = cellSize demo_board \<and>
     length (cells b') = length (cells demo_board) \<and>
     (\<forall>r < length (cells demo_board). length (cells b' ! r) = length (cells demo_board ! r) \<and>
        (\<forall>c < length (cells demo_board ! r).
           neighbours (cells b' ! r ! c) = neighbours (cells demo_board ! r ! c) \<and>
           position (cells b' ! r ! c) = position (cells demo_board ! r ! c) \<and>
           size_c (cells b' ! r ! c) = size_c (cells demo_board ! r ! c))))"
proof -
  note frame = steps_frame [of demo_board 2]
  from frame demo_ok obtain b' where "steps 2 demo_board = Inr b'" by blast
  with frame demo_ok show ?thesis by blast
qed

section \<open>Still lifes\<close>

lemma card_interval_cap:
  fixes r r0 :: int
  shows "card ({r - 1 .. r + 1} \<inter> {r0 .. r0 + 1}) =
           (if r = r0 \<or> r = r0 + 1 then 2 else if r = r0 - 1 \<or> r = r0 + 2 then 1 else 0)"
  by (auto simp: Int_atLeastAtMost)

lemma block_count:
  fixes r c r0 c0 :: int
  assumes live: "\<And>i j. P (i, j) \<longleftrightarrow> (i = r0 \<or> i = r0 + 1) \<and> (j = c0 \<or> j = c0 + 1)"
  shows "card (Set.filter P (adjacent r c)) =
           card ({r - 1 .. r + 1} \<inter> {r0 .. r0 + 1}) * card ({c - 1 .. c + 1} \<inter> {c0 .. c0 + 1})
           - (if P (r, c) then 1 else 0)"
proof -
  let ?A = "{r - 1 .. r + 1} \<inter> {r0 .. r0 + 1}" and ?B = "{c - 1 .. c + 1} \<inter> {c0 .. c0 + 1}"
  have "Set.filter P (adjacent r c) = ?A \<times> ?B - {(r, c)}"
    unfolding adjacent_def by (auto simp: live)
  moreover have "(r, c) \<in> ?A \<times> ?B \<longleftrightarrow> P (r, c)"
    by (auto simp: live)
  ultimately show ?thesis
    by (simp add: card_Diff_singleton_if card_cartesian_product)
qed


lemma applyRule_id: "alive (applyRule c) = alive c \<Longrightarrow> applyRule c = c"
  by (auto simp: applyRule_def Let_def split: if_splits)

lemma map_map_cong_nth:
  assumes "\<And>i j. i < length xss \<Longrightarrow> j < length (xss ! i) \<Longrightarrow> f (xss ! i ! j) = g (xss ! i ! j)"
  shows "map (map f) xss = map (map g) xss"
  using assms by (auto simp: in_set_conv_nth intro!: map_cong)

lemma still_step:
  assumes ok: "board_ok b" and st: "still b"
  shows "step b = Inr (b\<lparr>cells := map (map (recount (cells b))) (cells b)\<rparr>)"
proof -
  have r: "rect b" using ok by (rule board_ok_rect)
  have "nextCell (cells b) (cells b ! i ! j) = recount (cells b) (cells b ! i ! j)"
    if "i < length (cells b)" "j < length (cells b ! i)" for i j
  proof -
    from that r have range: "i < columnLength b" "j < rowLength b"
      by (simp_all add: rect_iff_nth)
    have "alive (nextCell (cells b) (cells b ! i ! j)) = alive (cells b ! i ! j)"
      using st range ok r by (simp add: still_def board_ok_neighbours liveCount_getNeighbours)
    then show ?thesis
      unfolding nextCell_def by (intro applyRule_id) (simp add: recount_def)
  qed
  then have "map (map (nextCell (cells b))) (cells b) = map (map (recount (cells b))) (cells b)"
    by (rule map_map_cong_nth)
  then show ?thesis by (simp add: step_eq [OF ok])
qed

lemma recount_twice:
  assumes ok: "board_ok b"
  defines "cs1 \<equiv> map (map (recount (cells b))) (cells b)"
  shows "map (map (recount cs1)) cs1 = cs1"
proof -
  have r: "rect b" using ok by (rule board_ok_rect)
  let ?b1 = "b\<lparr>cells := cs1\<rparr>"
  have ok1: "board_ok ?b1"
    unfolding cs1_def by (rule board_ok_map [OF ok]) (simp add: recount_def)
  have r1: "rect ?b1" using ok1 by (rule board_ok_rect)
  have g: "generation_of ?b1 = generation_of b" by (simp add: cs1_def)
  have "recount cs1 (cs1 ! i ! j) = cs1 ! i ! j" if "i < length cs1" "j < length (cs1 ! i)" for i j
  proof -
    from that r have range: "i < columnLength b" "j < rowLength b"
      by (simp_all add: cs1_def rect_iff_nth)
    have c1: "cs1 ! i ! j = recount (cells b) (cells b ! i ! j)"
      using range r by (simp add: cs1_def rect_iff_nth)
    have n: "neighbours (cells b ! i ! j) = getNeighbours b (int i) (int j)"
      using ok range by (rule board_ok_neighbours)
    have "liveCount cs1 (getNeighbours b (int i) (int j)) =
            liveCount (cells b) (getNeighbours b (int i) (int j))"
      using liveCount_getNeighbours [OF r1, of "int i" "int j"] liveCount_getNeighbours [OF r, of "int i" "int j"] g
      by simp
    then show ?thesis by (simp add: c1 recount_def n)
  qed
  then have "map (map (recount cs1)) cs1 = map (map (\<lambda>c. c)) cs1"
    by (intro map_map_cong_nth) simp
  then show ?thesis by simp
qed

lemma still_fixed_point:
  assumes ok: "board_ok b" and st: "still b"
  shows "\<exists>b'. step b = Inr b' \<and> b' = b\<lparr>cells := map (map (recount (cells b))) (cells b)\<rparr> \<and>
           generation_of b' = generation_of b \<and> step b' = Inr b'"
proof -
  let ?b1 = "b\<lparr>cells := map (map (recount (cells b))) (cells b)\<rparr>"
  have r: "rect b" using ok by (rule board_ok_rect)
  have ok1: "board_ok ?b1"
    by (rule board_ok_map [OF ok]) (simp add: recount_def)
  have st1: "still ?b1"
    using st r by (simp add: still_def rect_iff_nth recount_def)
  have "step ?b1 = Inr ?b1"
    using still_step [OF ok1 st1] recount_twice [OF ok] by simp
  then show ?thesis
    using still_step [OF ok st] by simp
qed

lemma block_liveAt:
  assumes r: "rect b" and blk: "isBlock b r0 c0"
  shows "liveAt (generation_of b) i j \<longleftrightarrow>
           (i = int r0 \<or> i = int r0 + 1) \<and> (j = int c0 \<or> j = int c0 + 1)"
proof -
  have "alive (cells b ! nat i ! nat j) \<longleftrightarrow>
          (nat i = r0 \<or> nat i = r0 + 1) \<and> (nat j = c0 \<or> nat j = c0 + 1)"
    if "isInBounds b i j"
  proof -
    from that have "nat i \<in> {0 ..< columnLength b}" "nat j \<in> {0 ..< rowLength b}"
      by (auto simp: isInBounds_def)
    with blk show ?thesis unfolding isBlock_def by blast
  qed
  moreover have "isInBounds b i j" if "(i = int r0 \<or> i = int r0 + 1) \<and> (j = int c0 \<or> j = int c0 + 1)"
    using that blk by (auto simp: isBlock_def isInBounds_def)
  ultimately show ?thesis
    unfolding liveAt_generation [OF r] by (auto simp: isInBounds_def)
qed

lemma block_still:
  assumes ok: "board_ok b" and blk: "isBlock b r0 c0"
  shows "still b"
  unfolding still_def
proof (intro allI impI)
  fix row col assume range: "row < columnLength b" "col < rowLength b"
  have r: "rect b" using ok by (rule board_ok_rect)
  let ?P = "\<lambda>p. liveAt (generation_of b) (fst p) (snd p)"
  have a: "alive (cells b ! row ! col) \<longleftrightarrow> (row = r0 \<or> row = r0 + 1) \<and> (col = c0 \<or> col = c0 + 1)"
    using blk range by (simp add: isBlock_def)
  have P: "?P (int row, int col) \<longleftrightarrow> (row = r0 \<or> row = r0 + 1) \<and> (col = c0 \<or> col = c0 + 1)"
    using block_liveAt [OF r blk, of "int row" "int col"] by auto
  have "liveNeighbourCount (generation_of b) (int row) (int col) =
          card ({int row - 1 .. int row + 1} \<inter> {int r0 .. int r0 + 1}) *
          card ({int col - 1 .. int col + 1} \<inter> {int c0 .. int c0 + 1})
          - (if ?P (int row, int col) then 1 else 0)"
    unfolding liveNeighbourCount_def
    by (rule block_count) (simp add: block_liveAt [OF r blk])
  then show "conway (alive (cells b ! row ! col))
               (liveNeighbourCount (generation_of b) (int row) (int col)) = alive (cells b ! row ! col)"
    unfolding card_interval_cap P a conway_def by (auto split: if_splits)
qed

text \<open>
  Claim C5. On an initialised board whose live cells are exactly a two by two block,
  anywhere on the board and so in particular away from its boundary, one generation
  succeeds and gives the same generation: the resulting board is the one it began with
  but for the counters, which the counting pass has refreshed, it is a fixed point of
  \<open>step\<close>, and the generation is a fixed point of the reference transition.
\<close>

theorem block_is_fixed_point:
  assumes "board_ok b" "isBlock b r0 c0"
  shows "\<exists>b'. step b = Inr b' \<and> b' = b\<lparr>cells := map (map (recount (cells b))) (cells b)\<rparr> \<and>
           generation_of b' = generation_of b \<and> step b' = Inr b' \<and>
           lifeStep (generation_of b) = generation_of b"
proof -
  from still_fixed_point [OF assms(1) block_still [OF assms]] obtain b' where b':
    "step b = Inr b'" "b' = b\<lparr>cells := map (map (recount (cells b))) (cells b)\<rparr>"
    "generation_of b' = generation_of b" "step b' = Inr b'"
    by blast
  from b'(1) have "b' = b\<lparr>cells := map (map (nextCell (cells b))) (cells b)\<rparr>"
    by (simp add: step_eq [OF assms(1)])
  with generation_step [OF assms(1)] b'(3) have "lifeStep (generation_of b) = generation_of b"
    by simp
  with b' show ?thesis by blast
qed

theorem block_is_fixed_point_witness:
  "board_ok demo_board \<and> isBlock demo_board 1 1 \<and>
   (\<exists>b'. step demo_board = Inr b' \<and>
      b' = demo_board\<lparr>cells := map (map (recount (cells demo_board))) (cells demo_board)\<rparr> \<and>
      generation_of b' = generation_of demo_board \<and> step b' = Inr b' \<and>
      lifeStep (generation_of demo_board) = generation_of demo_board)"
  using demo_ok demo_block block_is_fixed_point [OF demo_ok demo_block] by (intro conjI)

section \<open>Drawing and initialising\<close>

lemma draw_eq:
  assumes r: "rect b"
  shows "draw b pg = Inr (pg\<lparr>ctx := ctx pg @ painting b\<rparr>)"
proof -
  let ?rows = "\<lambda>row. concat (map (\<lambda>r. concat (map paint r)) (take row (cells b)))"
  let ?P = "\<lambda>row t. t = pg\<lparr>ctx := ctx pg @ ?rows row\<rparr>"
  have inner: "\<exists>t'. for_loop 0 (rowLength b) (\<lambda>col. drawCell b row col) t = Inr t' \<and> ?P (Suc row) t'"
    if row: "row < columnLength b" and t: "?P row t" for row t
  proof -
    let ?Q = "\<lambda>col u. u = pg\<lparr>ctx := ctx pg @ ?rows row @ concat (map paint (take col (cells b ! row)))\<rparr>"
    have "\<exists>t'. for_loop 0 (rowLength b) (\<lambda>col. drawCell b row col) t = Inr t' \<and> ?Q (rowLength b) t'"
    proof (rule for_loop_total [where P = ?Q])
      show "?Q 0 t" using t by simp
      show "0 \<le> rowLength b" by simp
    next
      fix j u assume j: "j < rowLength b" and u: "?Q j u"
      have "cellAt (cells b) (int row) (int j) = Inr (cells b ! row ! j)"
        using r row j by (simp add: cellAt_nat rect_iff_nth)
      then show "\<exists>t'. drawCell b row j u = Inr t' \<and> ?Q (Suc j) t'"
        using u r row j
        by (simp add: drawCell_def paint_def take_Suc_conv_app_nth rect_iff_nth)
    qed
    then show ?thesis
      using r row by (simp add: take_Suc_conv_app_nth rect_iff_nth)
  qed
  have "\<exists>t'. draw b pg = Inr t' \<and> ?P (columnLength b) t'"
    unfolding draw_def
    by (rule for_loop_total [where P = ?P]) (use inner in auto)
  then show ?thesis
    using r by (simp add: painting_def rect_iff_nth)
qed


lemma pushCell_eq:
  assumes "row = length rows"
  shows "pushCell row col (b\<lparr>cells := rows @ [xs]\<rparr>, pg) =
           Inr (b\<lparr>cells := rows @ [xs @ [(freshCell b (random pg) row col)\<lparr>alive := random pg 0\<rparr>]]\<rparr>,
                pg\<lparr>random := (\<lambda>k. random pg (Suc k))\<rparr>)"
  using assms
  by (simp add: pushCell_def new_Cell_def freshCell_def Let_def nth_append list_update_append)

lemma pushRow_eq:
  fixes b :: board and pg :: page
  defines "rnd \<equiv> random pg" and "n \<equiv> rowLength b"
  assumes "row = length rows"
  shows "pushRow row (b\<lparr>cells := rows\<rparr>, pg\<lparr>random := (\<lambda>k. rnd (row * n + k))\<rparr>) =
           Inr (b\<lparr>cells := rows @ [map (freshCell b rnd row) [0 ..< n]]\<rparr>,
                pg\<lparr>random := (\<lambda>k. rnd (Suc row * n + k))\<rparr>)"
proof -
  let ?Q = "\<lambda>col s. s = (b\<lparr>cells := rows @ [map (freshCell b rnd row) [0 ..< col]]\<rparr>,
                            pg\<lparr>random := (\<lambda>k. rnd (row * n + col + k))\<rparr>)"
  have "\<exists>s'. for_loop 0 n (pushCell row) (b\<lparr>cells := rows @ [[]]\<rparr>, pg\<lparr>random := (\<lambda>k. rnd (row * n + k))\<rparr>) = Inr s'
           \<and> ?Q n s'"
  proof (rule for_loop_total [where P = ?Q])
    show "?Q 0 (b\<lparr>cells := rows @ [[]]\<rparr>, pg\<lparr>random := (\<lambda>k. rnd (row * n + k))\<rparr>)" by simp
    show "0 \<le> n" by simp
  next
    fix j s assume j: "j < n" and s: "?Q j s"
    have "(\<lambda>k. rnd (row * n + j + Suc k)) = (\<lambda>k. rnd (row * n + Suc j + k))"
      by (simp add: fun_eq_iff)
    then show "\<exists>t'. pushCell row j s = Inr t' \<and> ?Q (Suc j) t'"
      unfolding s using assms(3)
      by (simp add: pushCell_eq freshCell_def n_def)
  qed
  moreover have "(\<lambda>k. rnd (row * n + n + k)) = (\<lambda>k. rnd (Suc row * n + k))"
    by (simp add: fun_eq_iff add.commute add.left_commute)
  ultimately show ?thesis
    by (auto simp: pushRow_def Let_def n_def)
qed

lemma init_cells_eq:
  fixes b :: board and pg :: page
  shows "for_loop 0 (columnLength b) pushRow (b\<lparr>cells := []\<rparr>, pg) =
           Inr (b\<lparr>cells := freshCells b (random pg)\<rparr>,
                pg\<lparr>random := (\<lambda>k. random pg (columnLength b * rowLength b + k))\<rparr>)"
proof -
  let ?P = "\<lambda>row s. s = (b\<lparr>cells := map (\<lambda>r. map (freshCell b (random pg) r) [0 ..< rowLength b]) [0 ..< row]\<rparr>,
                            pg\<lparr>random := (\<lambda>k. random pg (row * rowLength b + k))\<rparr>)"
  have "\<exists>s'. for_loop 0 (columnLength b) pushRow (b\<lparr>cells := []\<rparr>, pg) = Inr s' \<and> ?P (columnLength b) s'"
  proof (rule for_loop_total [where P = ?P])
    show "?P 0 (b\<lparr>cells := []\<rparr>, pg)" by simp
    show "0 \<le> columnLength b" by simp
  next
    fix j s assume j: "j < columnLength b" and s: "?P j s"
    show "\<exists>t'. pushRow j s = Inr t' \<and> ?P (Suc j) t'"
      unfolding s using pushRow_eq [where rows = "map (\<lambda>r. map (freshCell b (random pg) r) [0 ..< rowLength b]) [0 ..< j]"
          and row = j and b = b and pg = pg]
      by simp
  qed
  then show ?thesis by (simp add: freshCells_def)
qed

lemma rect_fresh: "rect (b\<lparr>cells := freshCells b rnd\<rparr>)"
  using board_ok_fresh by (rule board_ok_rect)

lemma init_eq:
  "init b pg =
     Inr (b\<lparr>cells := freshCells b (random pg)\<rparr>,
          pg\<lparr>random := (\<lambda>k. random pg (columnLength b * rowLength b + k)),
             ctx := ctx pg @ painting (b\<lparr>cells := freshCells b (random pg)\<rparr>)\<rparr>)"
  by (simp add: init_def init_cells_eq draw_eq [OF rect_fresh])

section \<open>Neighbour lists stay within the board\<close>

lemma board_ok_neighboursExact:
  assumes ok: "board_ok b"
  shows "neighboursExact b"
  unfolding neighboursExact_def
proof (intro ballI conjI)
  fix row col assume "row \<in> {0 ..< columnLength b}" "col \<in> {0 ..< rowLength b}"
  then have range: "row < columnLength b" "col < rowLength b" by simp_all
  have n: "neighbours (cells b ! row ! col) = getNeighbours b (int row) (int col)"
    using ok range by (rule board_ok_neighbours)
  show "distinct (neighbours (cells b ! row ! col))"
    unfolding n getNeighbours_def neighboursLoop_eq
    using distinct_shift_directions by simp
  show "set (neighbours (cells b ! row ! col)) =
          Set.filter (\<lambda>p. 0 \<le> fst p \<and> fst p < int (columnLength b) \<and>
                          0 \<le> snd p \<and> snd p < int (rowLength b))
            (adjacent (int row) (int col))"
    unfolding n getNeighbours_def neighboursLoop_eq
    using set_shift_directions [of "int row" "int col"] by (auto simp: isInBounds_def)
  fix p assume "p \<in> set (neighbours (cells b ! row ! col))"
  then show "cellAt (cells b) (fst p) (snd p) = Inr (cells b ! nat (fst p) ! nat (snd p))"
    using board_ok_inBounds [OF ok range] cellAt_inBounds [OF board_ok_rect [OF ok]] by blast
qed

lemma updateLivingNeighbours_ok:
  assumes "board_ok b"
  shows "updateLivingNeighbours b \<noteq> Inl TypeError"
  using updateLivingNeighbours_eq [OF board_ok_rect [OF assms] board_ok_inBounds [OF assms]]
  by simp

text \<open>
  Claim C3. Whatever the dimensions, \<^verbatim>\<open>init\<close> succeeds, and on the board it builds and on
  every board that any number of generations makes of it, the neighbour list of every
  cell holds, once each, exactly those of the eight surrounding coordinates that lie
  within the bounds of the board (nothing wraps around), every one of them is a
  coordinate that the counting pass can read, and the counting pass does not throw.
\<close>

theorem neighbour_lists_in_bounds:
  "\<exists>b' pg'. init b pg = Inr (b', pg') \<and>
     (\<forall>n. \<exists>bn. steps n b' = Inr bn \<and> neighboursExact bn \<and>
                updateLivingNeighbours bn \<noteq> Inl TypeError)"
proof -
  let ?b' = "b\<lparr>cells := freshCells b (random pg)\<rparr>"
  have "\<exists>bn. steps n ?b' = Inr bn \<and> neighboursExact bn \<and> updateLivingNeighbours bn \<noteq> Inl TypeError" for n
  proof -
    from steps_ok [OF board_ok_fresh] obtain bn where "steps n ?b' = Inr bn" "board_ok bn"
      by blast
    then show ?thesis
      using board_ok_neighboursExact updateLivingNeighbours_ok by blast
  qed
  then show ?thesis by (simp add: init_eq)
qed

theorem neighbour_lists_in_bounds_witness:
  "\<exists>b' pg'. init (new_Board 3) demo_page = Inr (b', pg') \<and>
     (\<forall>n. \<exists>bn. steps n b' = Inr bn \<and> neighboursExact bn \<and>
                updateLivingNeighbours bn \<noteq> Inl TypeError)"
  by (rule neighbour_lists_in_bounds)

section \<open>The controller\<close>

lemma freshCells_cells [simp]: "freshCells (b\<lparr>cells := cs\<rparr>) = freshCells b"
  by (simp add: freshCells_def freshCell_def fun_eq_iff)

lemma init_board_ok:
  assumes "init b pg = Inr (b', pg')"
  shows "board_ok b'"
  using assms board_ok_fresh [of b "random pg"] by (simp add: init_eq)

lemma restart_eq:
  "restart (ac, pg) =
     Inr (ac\<lparr>isPlaying := False, board := (board ac)\<lparr>cells := freshCells (board ac) (random pg)\<rparr>\<rparr>,
          pg\<lparr>random := (\<lambda>k. random pg (columnLength (board ac) * rowLength (board ac) + k)),
             ctx := ctx pg @ ClearRect 0 0 canvasWidth canvasHeight #
                      painting ((board ac)\<lparr>cells := freshCells (board ac) (random pg)\<rparr>)\<rparr>)"
  by (simp add: restart_def pause_def init_eq Let_def)


lemma animate_eq:
  assumes "board_ok (board ac)"
  shows "animate time (ac, pg) =
     Inr (ac\<lparr>board := (board ac)\<lparr>cells := map (map (nextCell (cells (board ac)))) (cells (board ac))\<rparr>\<rparr>,
          pg\<lparr>console := console pg @ [case lastTime pg of None \<Rightarrow> None | Some l \<Rightarrow> Some (time - l)],
             lastTime := Some time,
             ctx := ctx pg @ painting ((board ac)\<lparr>cells := map (map (nextCell (cells (board ac)))) (cells (board ac))\<rparr>),
             timers := timers pg @ [1000 / of_nat (fps ac)]\<rparr>)"
proof -
  have "rect ((board ac)\<lparr>cells := map (map (nextCell (cells (board ac)))) (cells (board ac))\<rparr>)"
    using assms by (simp add: board_ok_rect)
  then show ?thesis
    by (simp add: animate_def step_eq [OF assms] draw_eq setTimeout_def Let_def)
qed

lemma animate_props:
  assumes "board_ok (board (fst w))"
  shows "\<exists>w'. animate time w = Inr w' \<and> board_ok (board (fst w')) \<and>
           isPlaying (fst w') = isPlaying (fst w) \<and> fps (fst w') = fps (fst w) \<and>
           tref (fst w') = tref (fst w) \<and>
           ticks w' = Suc (ticks w) \<and> frames (snd w') = frames (snd w) \<and>
           nextHandle (snd w') = nextHandle (snd w) \<and>
           timers (snd w') = timers (snd w) @ [1000 / of_nat (fps (fst w))]"
proof -
  obtain ac pg where w: "w = (ac, pg)" by (cases w)
  have ok: "board_ok (board ac)" using assms w by simp
  have "board_ok ((board ac)\<lparr>cells := map (map (nextCell (cells (board ac)))) (cells (board ac))\<rparr>)"
    by (rule board_ok_map [OF ok]) simp
  then show ?thesis
    unfolding w by (simp add: animate_eq [OF ok] ticks_def)
qed

lemma animateAll_props:
  assumes "board_ok (board (fst w))"
  shows "\<exists>w'. animateAll hs time w = Inr w' \<and> board_ok (board (fst w')) \<and>
           isPlaying (fst w') = isPlaying (fst w) \<and> fps (fst w') = fps (fst w) \<and>
           tref (fst w') = tref (fst w) \<and>
           ticks w' = ticks w + length hs \<and> frames (snd w') = frames (snd w) \<and>
           nextHandle (snd w') = nextHandle (snd w) \<and>
           timers (snd w') = timers (snd w) @ replicate (length hs) (1000 / of_nat (fps (fst w)))"
  using assms
proof (induction hs arbitrary: w)
  case Nil
  then show ?case by simp
next
  case (Cons h hs)
  from animate_props [OF Cons.prems, of time] obtain w1 where w1:
    "animate time w = Inr w1" "board_ok (board (fst w1))"
    "isPlaying (fst w1) = isPlaying (fst w)" "fps (fst w1) = fps (fst w)" "tref (fst w1) = tref (fst w)"
    "ticks w1 = Suc (ticks w)" "frames (snd w1) = frames (snd w)"
    "nextHandle (snd w1) = nextHandle (snd w)"
    "timers (snd w1) = timers (snd w) @ [1000 / of_nat (fps (fst w))]"
    by blast
  from Cons.IH [OF w1(2)] w1 show ?case
    by (auto simp: replicate_app_Cons_same)
qed

lemma fire_stopped:
  assumes ok: "board_ok (board (fst w))" and st: "\<not> isPlaying (fst w)" and e: "e \<noteq> PlayClick"
  shows "\<exists>w'. fire e w = Inr w' \<and> board_ok (board (fst w')) \<and> \<not> isPlaying (fst w') \<and>
           ticks w \<le> ticks w' \<and>
           ticks w' + length (frames (snd w')) \<le> ticks w + length (frames (snd w))"
proof (cases e)
  case PlayClick
  with e show ?thesis by simp
next
  case PauseClick
  then show ?thesis using ok st by (simp add: pause_def Let_def)
next
  case RestartClick
  obtain ac pg where w: "w = (ac, pg)" by (cases w)
  show ?thesis
    unfolding RestartClick w
    using board_ok_fresh [of "board ac" "random pg"]
    by (simp add: restart_eq ticks_def)
next
  case (Frame time)
  have "board_ok (board (fst (fst w, (snd w)\<lparr>frames := []\<rparr>)))" using ok by simp
  from animateAll_props [OF this, of "frames (snd w)" time] show ?thesis
    unfolding Frame using st by (auto simp: ticks_def)
next
  case Timeout
  show ?thesis
  proof (cases "timers (snd w)")
    case Nil
    then show ?thesis unfolding Timeout using ok st by simp
  next
    case (Cons d ds)
    show ?thesis
      unfolding Timeout using ok st Cons
      by (simp add: animateTimeout_def cancelAnimationFrame_def ticks_def Let_def
            length_removeAll_less_eq)
  qed
qed

lemma run_stopped:
  assumes "board_ok (board (fst w))" "\<not> isPlaying (fst w)" "PlayClick \<notin> set es"
  shows "\<exists>w'. run es w = Inr w' \<and> board_ok (board (fst w')) \<and> \<not> isPlaying (fst w') \<and>
           ticks w \<le> ticks w' \<and>
           ticks w' + length (frames (snd w')) \<le> ticks w + length (frames (snd w))"
  using assms
proof (induction es arbitrary: w)
  case Nil
  then show ?case by simp
next
  case (Cons e es)
  from Cons.prems have "e \<noteq> PlayClick" "PlayClick \<notin> set es" by auto
  from fire_stopped [OF Cons.prems(1,2) this(1)] obtain w1 where w1:
    "fire e w = Inr w1" "board_ok (board (fst w1))" "\<not> isPlaying (fst w1)"
    "ticks w \<le> ticks w1" "ticks w1 + length (frames (snd w1)) \<le> ticks w + length (frames (snd w))"
    by blast
  from Cons.IH [OF w1(2,3) \<open>PlayClick \<notin> set es\<close>] obtain w' where
    "run es w1 = Inr w'" "board_ok (board (fst w'))" "\<not> isPlaying (fst w')"
    "ticks w1 \<le> ticks w'" "ticks w' + length (frames (snd w')) \<le> ticks w1 + length (frames (snd w1))"
    by blast
  with w1 show ?case by simp
qed


lemma frame_playing:
  assumes ok: "board_ok (board (fst w))" and fr: "length (frames (snd w)) = 1" and ti: "timers (snd w) = []"
  shows "\<exists>w1. fire (Frame time) w = Inr w1 \<and> board_ok (board (fst w1)) \<and>
           isPlaying (fst w1) = isPlaying (fst w) \<and> fps (fst w1) = fps (fst w) \<and>
           ticks w1 = Suc (ticks w) \<and> frames (snd w1) = [] \<and>
           timers (snd w1) = [1000 / of_nat (fps (fst w))]"
proof -
  have "board_ok (board (fst (fst w, (snd w)\<lparr>frames := []\<rparr>)))" using ok by simp
  from animateAll_props [OF this, of "frames (snd w)" time] show ?thesis
    using fr ti by (auto simp: ticks_def)
qed

lemma round_playing:
  assumes ok: "board_ok (board (fst w))" and pl: "isPlaying (fst w)"
    and fr: "length (frames (snd w)) = 1" and ti: "timers (snd w) = []"
  shows "\<exists>w'. run [Frame time, Timeout] w = Inr w' \<and> board_ok (board (fst w')) \<and>
           isPlaying (fst w') \<and> length (frames (snd w')) = 1 \<and> timers (snd w') = [] \<and>
           ticks w' = Suc (ticks w)"
proof -
  from frame_playing [OF ok fr ti, of time] obtain w1 where w1:
    "fire (Frame time) w = Inr w1" "board_ok (board (fst w1))" "isPlaying (fst w1) = isPlaying (fst w)"
    "ticks w1 = Suc (ticks w)" "frames (snd w1) = []" "timers (snd w1) = [1000 / of_nat (fps (fst w))]"
    by blast
  then show ?thesis
    using pl by (simp add: animateTimeout_def requestAnimationFrame_def ticks_def Let_def)
qed

lemma run_append:
  "run (es @ es') w = (case run es w of Inl x \<Rightarrow> Inl x | Inr w' \<Rightarrow> run es' w')"
  by (induction es arbitrary: w) (auto split: sum.splits)

lemma rounds_playing:
  assumes "board_ok (board (fst w))" "isPlaying (fst w)"
    "length (frames (snd w)) = 1" "timers (snd w) = []"
  shows "\<exists>w'. run (rounds ts) w = Inr w' \<and> board_ok (board (fst w')) \<and>
           isPlaying (fst w') \<and> length (frames (snd w')) = 1 \<and> timers (snd w') = [] \<and>
           ticks w' = ticks w + length ts"
  using assms
proof (induction ts arbitrary: w)
  case Nil
  then show ?case by (simp add: rounds_def)
next
  case (Cons t ts)
  from round_playing [OF Cons.prems, of t] obtain w1 where w1:
    "run [Frame t, Timeout] w = Inr w1" "board_ok (board (fst w1))" "isPlaying (fst w1)"
    "length (frames (snd w1)) = 1" "timers (snd w1) = []" "ticks w1 = Suc (ticks w)"
    by blast
  from Cons.IH [OF w1(2-5)] obtain w' where w': "run (rounds ts) w1 = Inr w'"
    "board_ok (board (fst w'))" "isPlaying (fst w')" "length (frames (snd w')) = 1"
    "timers (snd w') = []" "ticks w' = ticks w1 + length ts"
    by blast
  have "rounds (t # ts) = [Frame t, Timeout] @ rounds ts" by (simp add: rounds_def)
  then have "run (rounds (t # ts)) w = Inr w'"
    using w1(1) w'(1) by (simp only: run_append sum.case)
  with w' w1(6) show ?case by simp
qed

lemma play_stopped:
  assumes "\<not> isPlaying (fst w)"
  shows "play w = ((fst w)\<lparr>isPlaying := True, tref := nextHandle (snd w)\<rparr>,
                   (snd w)\<lparr>frames := frames (snd w) @ [nextHandle (snd w)],
                           nextHandle := Suc (nextHandle (snd w))\<rparr>)"
  using assms by (simp add: play_def requestAnimationFrame_def Let_def)

lemma pause_playing:
  assumes "isPlaying (fst w)"
  shows "pause w = ((fst w)\<lparr>isPlaying := False\<rparr>, snd w)"
  using assms by (simp add: pause_def Let_def)

lemma pause_props:
  "\<not> isPlaying (fst (pause w))" "board (fst (pause w)) = board (fst w)"
  "frames (snd (pause w)) = frames (snd w)" "ticks (pause w) = ticks w"
  by (simp_all add: pause_def Let_def ticks_def)


lemma new_AnimationController_eq:
  "new_AnimationController f pg =
     Inr (\<lparr> fps = f,
            board = (new_Board cellsPerRow)\<lparr>cells := freshCells (new_Board cellsPerRow) (random pg)\<rparr>,
            isPlaying = False, tref = 0 \<rparr>,
          pg\<lparr>random := (\<lambda>k. random pg (columnLength (new_Board cellsPerRow) * rowLength (new_Board cellsPerRow) + k)),
             ctx := ctx pg @ painting ((new_Board cellsPerRow)\<lparr>cells := freshCells (new_Board cellsPerRow) (random pg)\<rparr>)\<rparr>)"
  by (simp add: new_AnimationController_def init_eq)

lemma new_Board_dimensions:
  "rowLength (new_Board cellsPerRow) = 100" "columnLength (new_Board cellsPerRow) = 100"
  "cellSize (new_Board cellsPerRow) = 8"
  by (simp_all add: new_Board_def cellsPerRow_def canvasWidth_def canvasHeight_def)

lemma animate_dimensions:
  assumes "animate time w = Inr w'"
  shows "dimensions w' = dimensions w"
proof -
  from assms obtain b' where "step (board (fst w)) = Inr b'" "board (fst w') = b'"
    by (auto simp: animate_def Let_def split: sum.splits)
  with step_skeleton [of "board (fst w)" b'] show ?thesis
    by (simp add: skeleton_def dimensions_def)
qed

lemma animateAll_dimensions:
  assumes "animateAll hs time w = Inr w'"
  shows "dimensions w' = dimensions w"
  using assms
  by (induction hs arbitrary: w) (auto split: sum.splits dest: animate_dimensions)

lemma fire_dimensions:
  assumes "fire e w = Inr w'"
  shows "dimensions w' = dimensions w"
proof (cases e)
  case RestartClick
  with assms show ?thesis
    by (cases w) (auto simp: restart_eq dimensions_def)
next
  case (Frame time)
  with assms animateAll_dimensions [of "frames (snd w)" time "(fst w, (snd w)\<lparr>frames := []\<rparr>)" w']
  show ?thesis by (simp add: dimensions_def)
next
  case Timeout
  with assms show ?thesis
    by (cases w)
      (auto simp: dimensions_def animateTimeout_def requestAnimationFrame_def
         cancelAnimationFrame_def Let_def split: list.splits if_splits)
qed (use assms in \<open>auto simp: dimensions_def play_def pause_def requestAnimationFrame_def Let_def\<close>)

lemma run_dimensions:
  assumes "run es w = Inr w'"
  shows "dimensions w' = dimensions w"
  using assms
  by (induction es arbitrary: w) (auto split: sum.splits dest: fire_dimensions)


text \<open>
  Claim C6. Whatever the controller and the page, \<^verbatim>\<open>restart\<close> succeeds. The board keeps
  its \<open>rowLength\<close>, its \<open>columnLength\<close> and its cell size; the constructor of the
  controller derives them from the canvas dimensions and the cells-per-row constant
  (100 by 100 cells), and by \<open>run_dimensions\<close> no event changes them. Its cells
  are all newly built from the dimensions alone, with the counter at 0 and the flag
  given by the next unused outcomes of the random test, one per cell. The controller is
  stopped, no frame is requested and no timer armed, so that with no later click on
  play at most the frames already pending still run a tick. The canvas receives
  \<^verbatim>\<open>clearRect\<close> over its whole area and then the drawing of the new board.
\<close>

theorem restart_reinitialises:
  assumes "PlayClick \<notin> set es"
  shows "\<exists>ac' pg'. restart (ac, pg) = Inr (ac', pg') \<and>
     rowLength (board ac') = rowLength (board ac) \<and>
     columnLength (board ac') = columnLength (board ac) \<and>
     cellSize (board ac') = cellSize (board ac) \<and>
     (\<exists>ac0 pg1. new_AnimationController f pg0 = Inr (ac0, pg1) \<and>
        rowLength (board ac0) = cellsPerRow \<and>
        columnLength (board ac0) = canvasHeight div (canvasWidth div cellsPerRow) \<and>
        rowLength (board ac0) = 100 \<and> columnLength (board ac0) = 100) \<and>
     cells (board ac') = freshCells ((board ac)\<lparr>cells := []\<rparr>) (random pg) \<and>
     random pg' = (\<lambda>k. random pg (columnLength (board ac) * rowLength (board ac) + k)) \<and>
     \<not> isPlaying ac' \<and> fps ac' = fps ac \<and> tref ac' = tref ac \<and>
     frames pg' = frames pg \<and> timers pg' = timers pg \<and>
     ctx pg' = ctx pg @ ClearRect 0 0 canvasWidth canvasHeight # painting (board ac') \<and>
     (\<exists>w'. run es (ac', pg') = Inr w' \<and> \<not> isPlaying (fst w') \<and>
            ticks w' \<le> ticks (ac, pg) + length (frames pg))"
proof -
  let ?b' = "(board ac)\<lparr>cells := freshCells (board ac) (random pg)\<rparr>"
  let ?ac' = "ac\<lparr>isPlaying := False, board := ?b'\<rparr>"
  let ?pg' = "pg\<lparr>random := (\<lambda>k. random pg (columnLength (board ac) * rowLength (board ac) + k)),
                 ctx := ctx pg @ ClearRect 0 0 canvasWidth canvasHeight # painting ?b'\<rparr>"
  have "board_ok (board (fst (?ac', ?pg')))" "\<not> isPlaying (fst (?ac', ?pg'))"
    using board_ok_fresh [of "board ac" "random pg"] by simp_all
  from run_stopped [OF this assms]
  have "\<exists>w'. run es (?ac', ?pg') = Inr w' \<and> \<not> isPlaying (fst w') \<and>
          ticks w' \<le> ticks (ac, pg) + length (frames pg)"
    by (auto simp: ticks_def)
  moreover have "rowLength (new_Board cellsPerRow) = cellsPerRow"
    "columnLength (new_Board cellsPerRow) = canvasHeight div (canvasWidth div cellsPerRow)"
    by (simp_all add: new_Board_def)
  ultimately show ?thesis
    using new_Board_dimensions by (simp add: restart_eq new_AnimationController_eq)
qed

theorem restart_reinitialises_witness:
  "PlayClick \<notin> set [Frame 1, Timeout] \<and>
   (\<exists>ac' pg'. restart (demo_controller, demo_page) = Inr (ac', pg') \<and>
     rowLength (board ac') = rowLength (board demo_controller) \<and>
     columnLength (board ac') = columnLength (board demo_controller) \<and>
     cellSize (board ac') = cellSize (board demo_controller) \<and>
     (\<exists>ac0 pg1. new_AnimationController 5 demo_page = Inr (ac0, pg1) \<and>
        rowLength (board ac0) = cellsPerRow \<and>
        columnLength (board ac0) = canvasHeight div (canvasWidth div cellsPerRow) \<and>
        rowLength (board ac0) = 100 \<and> columnLength (board ac0) = 100) \<and>
     cells (board ac') = freshCells ((board demo_controller)\<lparr>cells := []\<rparr>) (random demo_page) \<and>
     random pg' = (\<lambda>k. random demo_page
                      (columnLength (board demo_controller) * rowLength (board demo_controller) + k)) \<and>
     \<not> isPlaying ac' \<and> fps ac' = fps demo_controller \<and> tref ac' = tref demo_controller \<and>
     frames pg' = frames demo_page \<and> timers pg' = timers demo_page \<and>
     ctx pg' = ctx demo_page @ ClearRect 0 0 canvasWidth canvasHeight # painting (board ac') \<and>
     (\<exists>w'. run [Frame 1, Timeout] (ac', pg') = Inr w' \<and> \<not> isPlaying (fst w') \<and>
            ticks w' \<le> ticks (demo_controller, demo_page) + length (frames demo_page)))"
proof -
  have es: "PlayClick \<notin> set [Frame 1, Timeout]" by simp
  from es restart_reinitialises [OF es, of demo_controller demo_page 5 demo_page] show ?thesis
    by (rule conjI)
qed

text \<open>
  Claim C10. A click on play while playing leaves the controller and the page as they
  are, so that no frame is requested and no second loop begins; a click on pause while
  stopped leaves them as they are; and either click, made twice, does what it does once.
\<close>

theorem play_pause_idempotent:
  "(isPlaying (fst w) \<longrightarrow> play w = w) \<and> (\<not> isPlaying (fst w) \<longrightarrow> pause w = w) \<and>
   play (play w) = play w \<and> pause (pause w) = pause w"
  by (cases w) (simp add: play_def pause_def requestAnimationFrame_def Let_def)

theorem play_pause_idempotent_witness:
  "isPlaying (fst (play demo_world)) \<and> play (play demo_world) = play demo_world \<and>
   \<not> isPlaying (fst demo_world) \<and> pause demo_world = demo_world"
  using play_pause_idempotent [of "play demo_world"] play_pause_idempotent [of demo_world]
  by (simp add: demo_world_def demo_controller_def play_def requestAnimationFrame_def Let_def)

text \<open>
  Claim C8, as the code has it. The controller is either stopped or playing. A click on
  play while stopped makes it playing and requests one animation frame; a click on pause
  while playing makes it stopped and does nothing else. From a stopped controller with
  nothing pending, play starts a loop that repeats: the frame runs one tick and arms one
  timer of \<^verbatim>\<open>1000 / fps\<close> milliseconds, whose expiry requests the next frame, so that
  after \<open>n\<close> such rounds \<open>n\<close> ticks have run and the controller is still playing. After a
  click on pause, and as long as play is not clicked, the controller stays stopped and
  no frame is requested any more: the ticks that still run are at most the frames that
  were pending when pause was clicked, and none at all when no frame was pending.
\<close>

theorem animation_driver:
  assumes ok: "board_ok (board (fst w))"
  shows "(\<not> isPlaying (fst w) \<longrightarrow>
            play w = ((fst w)\<lparr>isPlaying := True, tref := nextHandle (snd w)\<rparr>,
                      (snd w)\<lparr>frames := frames (snd w) @ [nextHandle (snd w)],
                              nextHandle := Suc (nextHandle (snd w))\<rparr>)) \<and>
         (isPlaying (fst w) \<longrightarrow> pause w = ((fst w)\<lparr>isPlaying := False\<rparr>, snd w)) \<and>
         (\<not> isPlaying (fst w) \<and> frames (snd w) = [] \<and> timers (snd w) = [] \<longrightarrow>
            (\<exists>w1. fire (Frame time) (play w) = Inr w1 \<and> ticks w1 = Suc (ticks w) \<and>
                   frames (snd w1) = [] \<and> timers (snd w1) = [1000 / of_nat (fps (fst w))]) \<and>
            (\<exists>w'. run (rounds ts) (play w) = Inr w' \<and> isPlaying (fst w') \<and>
                   ticks w' = ticks w + length ts \<and>
                   length (frames (snd w')) = 1 \<and> timers (snd w') = [])) \<and>
         (PlayClick \<notin> set es \<longrightarrow>
            (\<exists>w'. run es (pause w) = Inr w' \<and> \<not> isPlaying (fst w') \<and>
                   ticks w \<le> ticks w' \<and> ticks w' \<le> ticks w + length (frames (snd w)) \<and>
                   (frames (snd w) = [] \<longrightarrow> ticks w' = ticks w)))"
proof (intro conjI impI)
  assume "\<not> isPlaying (fst w)"
  then show "play w = ((fst w)\<lparr>isPlaying := True, tref := nextHandle (snd w)\<rparr>,
                      (snd w)\<lparr>frames := frames (snd w) @ [nextHandle (snd w)],
                              nextHandle := Suc (nextHandle (snd w))\<rparr>)"
    by (rule play_stopped)
next
  assume "isPlaying (fst w)"
  then show "pause w = ((fst w)\<lparr>isPlaying := False\<rparr>, snd w)" by (rule pause_playing)
next
  assume a: "\<not> isPlaying (fst w) \<and> frames (snd w) = [] \<and> timers (snd w) = []"
  then have p: "board_ok (board (fst (play w)))" "isPlaying (fst (play w))"
    "length (frames (snd (play w))) = 1" "timers (snd (play w)) = []"
    "ticks (play w) = ticks w" "fps (fst (play w)) = fps (fst w)"
    using ok by (simp_all add: play_stopped ticks_def)
  from frame_playing [OF p(1,3,4), of time] p(5,6)
  show "\<exists>w1. fire (Frame time) (play w) = Inr w1 \<and> ticks w1 = Suc (ticks w) \<and>
              frames (snd w1) = [] \<and> timers (snd w1) = [1000 / of_nat (fps (fst w))]"
    by auto
  from rounds_playing [OF p(1-4), of ts] p(5)
  show "\<exists>w'. run (rounds ts) (play w) = Inr w' \<and> isPlaying (fst w') \<and>
              ticks w' = ticks w + length ts \<and> length (frames (snd w')) = 1 \<and> timers (snd w') = []"
    by auto
next
  assume es: "PlayClick \<notin> set es"
  have "board_ok (board (fst (pause w)))" using ok by (simp add: pause_props)
  from run_stopped [OF this pause_props(1) es]
  show "\<exists>w'. run es (pause w) = Inr w' \<and> \<not> isPlaying (fst w') \<and>
              ticks w \<le> ticks w' \<and> ticks w' \<le> ticks w + length (frames (snd w)) \<and>
              (frames (snd w) = [] \<longrightarrow> ticks w' = ticks w)"
    by (auto simp: pause_props)
qed


theorem animation_driver_witness:
  "board_ok (board (fst demo_world)) \<and> \<not> isPlaying (fst demo_world) \<and>
   frames (snd demo_world) = [] \<and> timers (snd demo_world) = [] \<and>
   PlayClick \<notin> set [Frame 1, Timeout, RestartClick] \<and>
   play demo_world =
     ((fst demo_world)\<lparr>isPlaying := True, tref := nextHandle (snd demo_world)\<rparr>,
      (snd demo_world)\<lparr>frames := frames (snd demo_world) @ [nextHandle (snd demo_world)],
                        nextHandle := Suc (nextHandle (snd demo_world))\<rparr>) \<and>
   (\<exists>w1. fire (Frame 0) (play demo_world) = Inr w1 \<and> ticks w1 = Suc (ticks demo_world) \<and>
          frames (snd w1) = [] \<and> timers (snd w1) = [1000 / of_nat (fps (fst demo_world))]) \<and>
   (\<exists>w'. run (rounds [0, 1]) (play demo_world) = Inr w' \<and> isPlaying (fst w') \<and>
          ticks w' = ticks demo_world + length [0 :: rat, 1] \<and>
          length (frames (snd w')) = 1 \<and> timers (snd w') = []) \<and>
   (\<exists>w'. run [Frame 1, Timeout, RestartClick] (pause demo_world) = Inr w' \<and> \<not> isPlaying (fst w') \<and>
          ticks w' = ticks demo_world) \<and>
   board_ok (board (fst (play demo_world))) \<and> isPlaying (fst (play demo_world)) \<and>
   pause (play demo_world) = ((fst (play demo_world))\<lparr>isPlaying := False\<rparr>, snd (play demo_world))"
proof -
  have ok: "board_ok (board (fst demo_world))"
    by (simp add: demo_world_def demo_controller_def dead_ok)
  have st: "\<not> isPlaying (fst demo_world)"
    by (simp add: demo_world_def demo_controller_def)
  have fr: "frames (snd demo_world) = []" and ti: "timers (snd demo_world) = []"
    by (simp_all add: demo_world_def demo_page_def)
  have es: "PlayClick \<notin> set [Frame 1, Timeout, RestartClick]" by simp
  have ok': "board_ok (board (fst (play demo_world)))"
    using ok st by (simp add: play_stopped)
  have pl: "isPlaying (fst (play demo_world))"
    using st by (simp add: play_stopped)
  note stopped = animation_driver [OF ok, of 0 "[0, 1]" "[Frame 1, Timeout, RestartClick]"]
  note playing = animation_driver [OF ok', of 0 "[]" "[]"]
  from stopped st have 1: "play demo_world =
     ((fst demo_world)\<lparr>isPlaying := True, tref := nextHandle (snd demo_world)\<rparr>,
      (snd demo_world)\<lparr>frames := frames (snd demo_world) @ [nextHandle (snd demo_world)],
                        nextHandle := Suc (nextHandle (snd demo_world))\<rparr>)"
    by blast
  from stopped st fr ti have 2:
    "\<exists>w1. fire (Frame 0) (play demo_world) = Inr w1 \<and> ticks w1 = Suc (ticks demo_world) \<and>
          frames (snd w1) = [] \<and> timers (snd w1) = [1000 / of_nat (fps (fst demo_world))]"
    by blast
  from stopped st fr ti have 3:
    "\<exists>w'. run (rounds [0, 1]) (play demo_world) = Inr w' \<and> isPlaying (fst w') \<and>
          ticks w' = ticks demo_world + length [0 :: rat, 1] \<and>
          length (frames (snd w')) = 1 \<and> timers (snd w') = []"
    by blast
  from stopped es fr have 4:
    "\<exists>w'. run [Frame 1, Timeout, RestartClick] (pause demo_world) = Inr w' \<and> \<not> isPlaying (fst w') \<and>
          ticks w' = ticks demo_world"
    by blast
  from playing pl have 5:
    "pause (play demo_world) = ((fst (play demo_world))\<lparr>isPlaying := False\<rparr>, snd (play demo_world))"
    by blast
  show ?thesis
    using ok st fr ti es 1 2 3 4 ok' pl 5 by (intro conjI)
qed

text \<open>
  Claim C8, as it is stated, fails. On the small board: play, one frame, the expiry of
  its timer (which requests the next frame), then pause. One tick has run and the
  controller is stopped; the frame that was requested before the pause still arrives
  and runs a second tick.
\<close>

theorem tick_after_pause:
  "map_sum id ticks (run [PlayClick, Frame 0, Timeout, PauseClick] demo_world) = Inr 1 \<and>
   map_sum id (isPlaying \<circ> fst) (run [PlayClick, Frame 0, Timeout, PauseClick] demo_world) = Inr False \<and>
   map_sum id ticks (run [PlayClick, Frame 0, Timeout, PauseClick, Frame 16] demo_world) = Inr 2"
  by code_simp

text \<open>
  The hypothesis that nothing is pending matters. When play is clicked after pause while
  the timer of the last tick is still pending, play requests a frame and the timer, on
  expiry, finds the controller playing and requests another: two loops run side by side
  and the next animation frame executes two ticks.
\<close>

lemma two_loops_after_pause_and_play:
  "map_sum id (length \<circ> frames \<circ> snd)
     (run [PlayClick, Frame 0, PauseClick, PlayClick, Timeout] demo_world) = Inr 2 \<and>
   map_sum id ticks
     (run [PlayClick, Frame 0, PauseClick, PlayClick, Timeout, Frame 16] demo_world) = Inr 3"
  by code_simp

end
